theory Spec2Isabelle
  imports Main "HOL-Library.Word" "HOL-Library.Sublist" "HOL-Library.Multiset"
begin

unbundle bit_operations_syntax

section \<open>The hex view of angr management: data model\<close>

text \<open>
  The development embeds the view-model part of \<^verbatim>\<open>angrmanagement/ui/views/hex_view.py\<close>:
  the address geometry, the cursor and selection state of \<^verbatim>\<open>HexGraphicsObject\<close>, the
  highlight regions, and the patch handling of \<^verbatim>\<open>PatchHighlightRegion\<close> and
  \<^verbatim>\<open>HexView.auto_patch\<close>. Python integers are unbounded, so addresses are \<open>int\<close>;
  the elements of a \<^verbatim>\<open>bytearray\<close> are 8-bit words.
\<close>

type_synonym HexAddress = int
type_synonym byte = "8 word"

text \<open>\<^verbatim>\<open>HexByteValue = Union[int, str]\<close>: a data provider answers with a byte or with a
  marker string such as \<^verbatim>\<open>'?'\<close>.\<close>

datatype HexByteValue = IntValue int | StrValue string

datatype error = AssertionError | ValueError

datatype color = Yellow | Green | StringColor | DataColor | InstructionColor

text \<open>\<^verbatim>\<open>angr.knowledge_plugins.patches.Patch\<close>: the fields the view reads and writes.
  The field \<^verbatim>\<open>addr\<close> is named \<open>patch_addr\<close> here, since the highlight regions have an
  \<^verbatim>\<open>addr\<close> of their own.\<close>

record Patch =
  patch_addr :: HexAddress
  new_bytes :: "byte list"
  comment :: "string option"

text \<open>\<^verbatim>\<open>len(patch)\<close> is the length of its byte buffer.\<close>

definition patch_len :: "Patch \<Rightarrow> int" where
  "patch_len p = int (length (new_bytes p))"

text \<open>\<^verbatim>\<open>HexHighlightRegion\<close>; a \<^verbatim>\<open>PatchHighlightRegion\<close> is a region that also carries
  its patch. The field \<^verbatim>\<open>size\<close> is named \<open>size_r\<close>.\<close>

record HexHighlightRegion =
  color :: color
  addr :: HexAddress
  size_r :: int
  active :: bool
  patch :: "Patch option"

text \<open>The constructors: a new region is inactive.\<close>

definition new_HexHighlightRegion :: "color \<Rightarrow> HexAddress \<Rightarrow> int \<Rightarrow> HexHighlightRegion" where
  "new_HexHighlightRegion c a n =
     \<lparr>color = c, addr = a, size_r = n, active = False, patch = None\<rparr>"

definition new_PatchHighlightRegion :: "Patch \<Rightarrow> HexHighlightRegion" where
  "new_PatchHighlightRegion p =
     \<lparr>color = Yellow, addr = patch_addr p, size_r = patch_len p, active = False, patch = Some p\<rparr>"

text \<open>
  The state of a \<^verbatim>\<open>HexGraphicsObject\<close>, without its fonts and layout metrics.
  \<open>has_focus\<close> is what Qt's \<^verbatim>\<open>hasFocus()\<close> answers. The signal \<^verbatim>\<open>cursor_changed\<close> has
  no state of its own in the source: \<open>cursor_changed_emitted\<close> counts the calls of
  \<^verbatim>\<open>cursor_changed.emit()\<close>, so that a notification is observable. The slots connected
  to the signal belong to other objects and are not run here. Repaint requests
  (\<^verbatim>\<open>self.update()\<close>) change nothing of this state and are left out.
\<close>

record HexGraphicsObject =
  start_addr :: HexAddress
  num_bytes :: int
  end_addr :: HexAddress
  cursor :: HexAddress
  cursor_nibble :: "int option"
  selection_start :: "HexAddress option"
  ascii_column_active :: bool
  cursor_blink_state :: bool
  highlighted_regions :: "HexHighlightRegion list"
  processing_cursor_update :: bool
  has_focus :: bool
  cursor_changed_emitted :: nat

text \<open>The state after \<^verbatim>\<open>__init__\<close>.\<close>

definition init_HexGraphicsObject :: HexGraphicsObject where
  "init_HexGraphicsObject =
     \<lparr>start_addr = 0, num_bytes = 0, end_addr = 0, cursor = 0, cursor_nibble = None,
      selection_start = None, ascii_column_active = False, cursor_blink_state = True,
      highlighted_regions = [], processing_cursor_update = False, has_focus = False,
      cursor_changed_emitted = 0\<rparr>"

section \<open>Address geometry\<close>

definition row_to_addr :: "HexGraphicsObject \<Rightarrow> int \<Rightarrow> int" where
  "row_to_addr h row = (start_addr h AND NOT 15) + row * 16"

definition row_col_to_addr :: "HexGraphicsObject \<Rightarrow> int \<Rightarrow> int \<Rightarrow> int" where
  "row_col_to_addr h row col = (start_addr h AND NOT 15) + row * 16 + col"

text \<open>Python's \<^verbatim>\<open>>>\<close> on an unbounded integer is the arithmetic shift, \<open>drop_bit\<close> on
  \<open>int\<close>.\<close>

definition addr_to_row_col :: "HexGraphicsObject \<Rightarrow> int \<Rightarrow> int \<times> int" where
  "addr_to_row_col h a =
     (let a' = a - (start_addr h AND NOT 15);
          row = drop_bit 4 a';
          col = a' AND 15
      in (row, col))"

section \<open>Selection, active regions and the cursor\<close>

definition begin_selection :: "HexGraphicsObject \<Rightarrow> HexGraphicsObject" where
  "begin_selection h = h\<lparr>selection_start := Some (cursor h)\<rparr>"

definition clear_selection :: "HexGraphicsObject \<Rightarrow> HexGraphicsObject" where
  "clear_selection h = h\<lparr>selection_start := None\<rparr>"

definition restart_cursor_blink_timer :: "HexGraphicsObject \<Rightarrow> HexGraphicsObject" where
  "restart_cursor_blink_timer h = h\<lparr>cursor_blink_state := True\<rparr>"

text \<open>The range \<^verbatim>\<open>[minaddr, maxaddr]\<close> that \<^verbatim>\<open>update_active_highlight_regions\<close>
  computes first.\<close>

definition active_range :: "HexGraphicsObject \<Rightarrow> int \<times> int" where
  "active_range h =
     (case selection_start h of
        None \<Rightarrow> (cursor h, cursor h)
      | Some s \<Rightarrow> (min (cursor h) s, max (cursor h) s))"

definition update_active_highlight_regions :: "HexGraphicsObject \<Rightarrow> HexGraphicsObject" where
  "update_active_highlight_regions h =
     (let (minaddr, maxaddr) = active_range h
      in h\<lparr>highlighted_regions :=
             map (\<lambda>region.
                    let region_end = addr region + size_r region - 1
                    in region\<lparr>active := \<not> (addr region > maxaddr \<or> minaddr > region_end)\<rparr>)
                 (highlighted_regions h)\<rparr>)"

definition get_active_highlight_regions :: "HexGraphicsObject \<Rightarrow> HexHighlightRegion list" where
  "get_active_highlight_regions h = filter active (highlighted_regions h)"

definition get_highlight_regions_under_cursor ::
    "HexGraphicsObject \<Rightarrow> HexHighlightRegion list" where
  "get_highlight_regions_under_cursor h =
     filter (\<lambda>region. addr region \<le> cursor h \<and> cursor h < addr region + size_r region)
            (highlighted_regions h)"

definition set_highlight_regions ::
    "HexHighlightRegion list \<Rightarrow> HexGraphicsObject \<Rightarrow> HexGraphicsObject" where
  "set_highlight_regions regions h =
     update_active_highlight_regions (h\<lparr>highlighted_regions := regions\<rparr>)"

definition get_selection :: "HexGraphicsObject \<Rightarrow> (int \<times> int) option" where
  "get_selection h =
     (case selection_start h of
        None \<Rightarrow> None
      | Some s \<Rightarrow>
          if start_addr h \<le> cursor h \<and> cursor h < end_addr h
          then Some (min (cursor h) s, max (cursor h) s)
          else None)"

text \<open>\<^verbatim>\<open>set_cursor(addr, ascii_column=None, nibble=None)\<close>, statement by statement.\<close>

definition set_cursor ::
    "HexAddress \<Rightarrow> bool option \<Rightarrow> int option \<Rightarrow> HexGraphicsObject \<Rightarrow> HexGraphicsObject" where
  "set_cursor a ascii_column nibble h =
     (if a \<ge> end_addr h \<or> a < start_addr h then h
      else if processing_cursor_update h then h
      else
        let h1 = h\<lparr>processing_cursor_update := True\<rparr>;
            h2 = (case ascii_column of None \<Rightarrow> h1 | Some b \<Rightarrow> h1\<lparr>ascii_column_active := b\<rparr>);
            h3 = (if has_focus h2 then restart_cursor_blink_timer h2 else h2);
            cursor_changed = (cursor h3 \<noteq> a);
            h4 = h3\<lparr>cursor := a\<rparr>;
            h5 = h4\<lparr>cursor_nibble := nibble\<rparr>;
            h6 = h5\<lparr>cursor_changed_emitted := Suc (cursor_changed_emitted h5)\<rparr>;
            h7 = (if cursor_changed then update_active_highlight_regions h6 else h6)
        in h7\<lparr>processing_cursor_update := False\<rparr>)"

text \<open>\<^verbatim>\<open>_set_data_common\<close>, after \<^verbatim>\<open>set_data\<close> or \<^verbatim>\<open>set_data_callback\<close> has stored the
  start address and the number of bytes; the layout update is left out.\<close>

definition set_data_common :: "HexGraphicsObject \<Rightarrow> error + HexGraphicsObject" where
  "set_data_common h =
     (if \<not> num_bytes h \<ge> 0 then Inl AssertionError
      else
        let h1 = h\<lparr>end_addr := start_addr h + num_bytes h\<rparr>
        in Inr (set_cursor (start_addr h1) None None h1))"

definition set_data_callback ::
    "HexAddress \<Rightarrow> int \<Rightarrow> HexGraphicsObject \<Rightarrow> error + HexGraphicsObject" where
  "set_data_callback start n h = set_data_common (h\<lparr>start_addr := start, num_bytes := n\<rparr>)"

text \<open>\<^verbatim>\<open>mouseDoubleClickEvent\<close> for the left button. Its first statement sorts the
  regions under the cursor by their distance from the cursor; Python's \<^verbatim>\<open>sorted\<close> is
  stable, as \<open>sort_key\<close> is.\<close>

definition mouseDoubleClickEvent_regions :: "HexGraphicsObject \<Rightarrow> HexHighlightRegion list" where
  "mouseDoubleClickEvent_regions h =
     sort_key (\<lambda>r. cursor h - addr r) (get_highlight_regions_under_cursor h)"

definition mouseDoubleClickEvent :: "HexGraphicsObject \<Rightarrow> HexGraphicsObject" where
  "mouseDoubleClickEvent h =
     (case mouseDoubleClickEvent_regions h of
        [] \<Rightarrow> h
      | region # _ \<Rightarrow>
          set_cursor (addr region) None None
            (begin_selection
              (set_cursor (addr region + size_r region - 1) None None h)))"

text \<open>The movement keys of \<^verbatim>\<open>keyPressEvent\<close>: \<open>delta\<close> is the entry of
  \<^verbatim>\<open>movement_keys\<close>, \<open>shift\<close> says whether the shift modifier is held.\<close>

definition keyPressEvent_movement :: "int \<Rightarrow> bool \<Rightarrow> HexGraphicsObject \<Rightarrow> HexGraphicsObject" where
  "keyPressEvent_movement delta shift h =
     (let h1 = (if shift
                then (if selection_start h = None then begin_selection h else h)
                else clear_selection h);
          new_cursor = cursor h1 + delta
      in set_cursor new_cursor None None h1)"

section \<open>Editing through the write callback\<close>

text \<open>
  \<^verbatim>\<open>write_func\<close> and \<^verbatim>\<open>read_func\<close> are callbacks into the owner of the bytes. The
  owner's state has type \<open>'m\<close>: a write answers success or failure and the owner's new
  state.
\<close>

type_synonym 'm write_func = "HexAddress \<Rightarrow> int \<Rightarrow> 'm \<Rightarrow> bool \<times> 'm"
type_synonym 'm read_func = "'m \<Rightarrow> HexAddress \<Rightarrow> HexByteValue"

definition set_byte_value ::
    "'m write_func \<Rightarrow> int \<Rightarrow> HexGraphicsObject \<times> 'm \<Rightarrow> HexGraphicsObject \<times> 'm" where
  "set_byte_value write_func v hm =
     (let (h, m) = hm;
          (ok, m') = write_func (cursor h) v m
      in if \<not> ok then (h, m')
         else (set_cursor (cursor h + 1) None None h, m'))"

text \<open>Python raises \<^verbatim>\<open>ValueError\<close> for a negative shift count.\<close>

definition py_lshift :: "int \<Rightarrow> int \<Rightarrow> error + int" where
  "py_lshift x k = (if k < 0 then Inl ValueError else Inr (push_bit (nat k) x))"

definition set_nibble_value ::
    "'m write_func \<Rightarrow> 'm read_func \<Rightarrow> int \<Rightarrow> HexGraphicsObject \<times> 'm
       \<Rightarrow> error + HexGraphicsObject \<times> 'm" where
  "set_nibble_value write_func read_func v hm =
     (let (h, m) = hm;
          nibble = (case cursor_nibble h of None \<Rightarrow> 1 | Some n \<Rightarrow> n);
          cleared = (case read_func m (cursor h) of
                       StrValue _ \<Rightarrow> Inr 0
                     | IntValue b \<Rightarrow>
                         (case py_lshift 15 (nibble * 4) of
                            Inl e \<Rightarrow> Inl e
                          | Inr nibble_mask \<Rightarrow> Inr (b AND NOT nibble_mask)))
      in case cleared of
           Inl e \<Rightarrow> Inl e
         | Inr c \<Rightarrow>
            (case py_lshift v (nibble * 4) of
               Inl e \<Rightarrow> Inl e
             | Inr shifted \<Rightarrow>
                 let new_byte_value = c OR shifted;
                     (ok, m') = write_func (cursor h) new_byte_value m
                 in if \<not> ok then Inr (h, m')
                    else
                      let next_nibble = 1 - nibble
                      in Inr (set_cursor (cursor h + next_nibble) None (Some next_nibble) h, m')))"

section \<open>Python slices\<close>

text \<open>A slice bound is clipped to the sequence: a negative bound counts from the end.\<close>

definition py_slice_index :: "int \<Rightarrow> nat \<Rightarrow> nat" where
  "py_slice_index i n = (if i < 0 then nat (max (i + int n) 0) else min (nat i) n)"

text \<open>\<^verbatim>\<open>xs[i:j]\<close>, \<^verbatim>\<open>xs[i:]\<close> and the assignment \<^verbatim>\<open>xs[i:j] = ys\<close>.\<close>

definition py_slice :: "'a list \<Rightarrow> int \<Rightarrow> int \<Rightarrow> 'a list" where
  "py_slice xs i j =
     (let lo = py_slice_index i (length xs); hi = py_slice_index j (length xs)
      in take (hi - lo) (drop lo xs))"

definition py_slice_from :: "'a list \<Rightarrow> int \<Rightarrow> 'a list" where
  "py_slice_from xs i = drop (py_slice_index i (length xs)) xs"

definition py_slice_assign :: "'a list \<Rightarrow> int \<Rightarrow> int \<Rightarrow> 'a list \<Rightarrow> 'a list" where
  "py_slice_assign xs i j ys =
     (let lo = py_slice_index i (length xs); hi = max lo (py_slice_index j (length xs))
      in take lo xs @ ys @ drop hi xs)"

section \<open>The patch set\<close>

text \<open>
  Modelled from the spec: the patch set is angr's patch manager, an external collection
  keyed by start address, which offers \<^verbatim>\<open>get_all_patches(addr, size)\<close> (the patches
  that intersect \<^verbatim>\<open>[addr, addr + size - 1]\<close>, in ascending address order),
  \<^verbatim>\<open>add_patch_obj(patch)\<close> (store under the patch's address) and
  \<^verbatim>\<open>remove_patch(addr)\<close> (drop the entry of that key). The collection is a list of
  patches in ascending order of their keys, a patch's key being its address.
\<close>

type_synonym patch_store = "Patch list"

definition get_all_patches :: "patch_store \<Rightarrow> HexAddress \<Rightarrow> int \<Rightarrow> Patch list" where
  "get_all_patches pm a n =
     filter (\<lambda>p. patch_addr p \<le> a + n - 1 \<and> a \<le> patch_addr p + patch_len p - 1) pm"

fun add_patch_obj :: "Patch \<Rightarrow> patch_store \<Rightarrow> patch_store" where
  "add_patch_obj p [] = [p]"
| "add_patch_obj p (q # qs) =
     (if patch_addr p < patch_addr q then p # q # qs
      else if patch_addr p = patch_addr q then p # qs
      else q # add_patch_obj p qs)"

definition remove_patch :: "HexAddress \<Rightarrow> patch_store \<Rightarrow> patch_store" where
  "remove_patch a pm = filter (\<lambda>q. patch_addr q \<noteq> a) pm"

text \<open>A patch is a mutable object shared between the patch set and whoever holds it: an
  assignment to a field of the patch \<open>p\<close> that is in the set changes the set's entry.\<close>

definition store_mutate :: "Patch \<Rightarrow> Patch \<Rightarrow> patch_store \<Rightarrow> patch_store" where
  "store_mutate p p' pm = map (\<lambda>q. if q = p then p' else q) pm"

text \<open>The data-model invariant of the patch set: keys ascend and no two patches
  overlap.\<close>

definition precedes :: "Patch \<Rightarrow> Patch \<Rightarrow> bool" where
  "precedes p q \<longleftrightarrow> patch_addr p < patch_addr q \<and> patch_addr p + patch_len p \<le> patch_addr q"

definition wf_store :: "patch_store \<Rightarrow> bool" where
  "wf_store pm = sorted_wrt precedes pm"

section \<open>Splitting and merging patches\<close>

text \<open>The methods of \<^verbatim>\<open>PatchHighlightRegion\<close>, on the region's patch \<^verbatim>\<open>self.patch\<close>,
  the cursor of the view and the patch set.\<close>

definition can_split :: "HexAddress \<Rightarrow> Patch \<Rightarrow> bool" where
  "can_split c p \<longleftrightarrow> patch_addr p < c \<and> c < patch_addr p + patch_len p"

definition split :: "HexAddress \<Rightarrow> Patch \<Rightarrow> patch_store \<Rightarrow> patch_store" where
  "split c p pm =
     (if can_split c p then
        let off = c - patch_addr p;
            new_patch = \<lparr>patch_addr = c, new_bytes = py_slice_from (new_bytes p) off,
                         comment = comment p\<rparr>;
            pm1 = store_mutate p (p\<lparr>new_bytes := py_slice (new_bytes p) 0 off\<rparr>) pm
        in add_patch_obj new_patch pm1
      else pm)"

definition can_merge_with :: "Patch \<Rightarrow> Patch \<Rightarrow> bool" where
  "can_merge_with p other \<longleftrightarrow> patch_addr other = patch_addr p + patch_len p"

definition merge_with :: "Patch \<Rightarrow> Patch \<Rightarrow> patch_store \<Rightarrow> patch_store" where
  "merge_with p other pm =
     (if can_merge_with p other then
        let pm1 = store_mutate p (p\<lparr>new_bytes := new_bytes p @ new_bytes other\<rparr>) pm
        in remove_patch (patch_addr other) pm1
      else pm)"

section \<open>Writing bytes: \<^verbatim>\<open>auto_patch\<close>\<close>

text \<open>The \<^verbatim>\<open>for\<close> loop either leaves the function by its \<^verbatim>\<open>return\<close> or runs to its
  end.\<close>

datatype 'a loop_result = Returned 'a | Completed 'a

fun auto_patch_loop ::
    "HexAddress \<Rightarrow> byte list \<Rightarrow> Patch list \<Rightarrow> patch_store \<Rightarrow> error + patch_store loop_result" where
  "auto_patch_loop a nb [] pm = Inr (Completed pm)"
| "auto_patch_loop a nb (p # ps) pm =
     (let max_addr = a + int (length nb) - 1;
          patch_max_addr = patch_addr p + patch_len p - 1
      in if patch_addr p \<le> a \<and> patch_max_addr \<ge> max_addr then
           Inr (Returned (store_mutate p
                  (p\<lparr>new_bytes := py_slice_assign (new_bytes p)
                        (a - patch_addr p) (max_addr - patch_addr p + 1) nb\<rparr>) pm))
         else if patch_addr p \<ge> a \<and> patch_max_addr \<le> max_addr then
           auto_patch_loop a nb ps (remove_patch (patch_addr p) pm)
         else if patch_addr p \<ge> a \<and> patch_max_addr > max_addr then
           (let pm1 = remove_patch (patch_addr p) pm;
                new_p_addr = max_addr + 1;
                p1 = p\<lparr>new_bytes := py_slice_from (new_bytes p) (new_p_addr - patch_addr p)\<rparr>;
                p2 = p1\<lparr>patch_addr := new_p_addr\<rparr>
            in auto_patch_loop a nb ps (add_patch_obj p2 pm1))
         else if patch_addr p < a \<and> patch_max_addr \<le> max_addr then
           (let pm1 = remove_patch (patch_addr p) pm;
                p1 = p\<lparr>new_bytes := py_slice (new_bytes p) 0 (a - patch_addr p)\<rparr>
            in auto_patch_loop a nb ps (add_patch_obj p1 pm1))
         else Inl AssertionError)"

text \<open>What follows the loop: extend the patch that holds the byte before \<open>a\<close>, or create
  a patch.\<close>

definition extend_or_create :: "HexAddress \<Rightarrow> byte list \<Rightarrow> patch_store \<Rightarrow> patch_store" where
  "extend_or_create a nb pm =
     (let fresh = \<lparr>patch_addr = a, new_bytes = nb, comment = None\<rparr>
      in if a > 0 then
           (case get_all_patches pm (a - 1) 1 of
              p # _ \<Rightarrow> store_mutate p (p\<lparr>new_bytes := new_bytes p @ nb\<rparr>) pm
            | [] \<Rightarrow> add_patch_obj fresh pm)
         else add_patch_obj fresh pm)"

definition auto_patch :: "patch_store \<Rightarrow> HexAddress \<Rightarrow> byte list \<Rightarrow> error + patch_store" where
  "auto_patch pm a nb =
     (case auto_patch_loop a nb (get_all_patches pm a (int (length nb))) pm of
        Inl e \<Rightarrow> Inl e
      | Inr (Returned pm') \<Rightarrow> Inr pm'
      | Inr (Completed pm') \<Rightarrow> Inr (extend_or_create a nb pm'))"

section \<open>The vocabulary of the properties\<close>

text \<open>The cursor invariant of the data model: the cursor is an address of the region.\<close>

definition cursor_in_bounds :: "HexGraphicsObject \<Rightarrow> bool" where
  "cursor_in_bounds h \<longleftrightarrow> start_addr h \<le> cursor h \<and> cursor h < end_addr h"

text \<open>The overlap test of a region against the current cursor or selection range, and the
  state in which every region's \<^verbatim>\<open>active\<close> flag agrees with it.\<close>

definition region_overlaps_range :: "HexGraphicsObject \<Rightarrow> HexHighlightRegion \<Rightarrow> bool" where
  "region_overlaps_range h r \<longleftrightarrow>
     addr r \<le> snd (active_range h) \<and> fst (active_range h) \<le> addr r + size_r r - 1"

definition active_flags_current :: "HexGraphicsObject \<Rightarrow> bool" where
  "active_flags_current h =
     list_all (\<lambda>r. active r = region_overlaps_range h r) (highlighted_regions h)"

text \<open>The nibble position that \<^verbatim>\<open>_set_nibble_value\<close> edits (1, the high nibble, when none
  is pending) and the byte it hands to the write callback: the old byte with that nibble
  replaced by \<open>v\<close>, or \<open>v\<close> alone in its nibble when the old value is not a byte.\<close>

definition pending_nibble :: "HexGraphicsObject \<Rightarrow> int" where
  "pending_nibble h = (case cursor_nibble h of None \<Rightarrow> 1 | Some n \<Rightarrow> n)"

definition nibble_byte_value :: "HexByteValue \<Rightarrow> int \<Rightarrow> int \<Rightarrow> int" where
  "nibble_byte_value old nibble v =
     (case old of StrValue _ \<Rightarrow> 0 | IntValue b \<Rightarrow> b AND NOT (push_bit (nat (nibble * 4)) 15))
       OR push_bit (nat (nibble * 4)) v"

text \<open>A state of a 256-byte region at address 0 with one region of two bytes at address 3:
  the cursor is at 0 and the selection, anchored at 16, covers the region.\<close>

definition stale_selection_state :: HexGraphicsObject where
  "stale_selection_state =
     \<lparr>start_addr = 0, num_bytes = 256, end_addr = 256, cursor = 0, cursor_nibble = None,
      selection_start = Some 16, ascii_column_active = False, cursor_blink_state = True,
      highlighted_regions =
        [\<lparr>color = DataColor, addr = 3, size_r = 2, active = True, patch = None\<rparr>],
      processing_cursor_update = False, has_focus = False, cursor_changed_emitted = 3\<rparr>"

text \<open>The buffer \<open>xs\<close> with \<open>ys\<close> written over it from the offset \<open>off\<close> on.\<close>

definition overwrite_at :: "'a list \<Rightarrow> nat \<Rightarrow> 'a list \<Rightarrow> 'a list" where
  "overwrite_at xs off ys = take off xs @ ys @ drop (off + length ys) xs"

text \<open>The two halves of a patch \<open>p\<close> split at the address \<open>c\<close>.\<close>

definition split_left :: "HexAddress \<Rightarrow> Patch \<Rightarrow> Patch" where
  "split_left c p = p\<lparr>new_bytes := take (nat (c - patch_addr p)) (new_bytes p)\<rparr>"

definition split_right :: "HexAddress \<Rightarrow> Patch \<Rightarrow> Patch" where
  "split_right c p =
     \<lparr>patch_addr = c, new_bytes = drop (nat (c - patch_addr p)) (new_bytes p),
      comment = comment p\<rparr>"

text \<open>A patch overlaps the target range \<open>[a, a + n - 1]\<close> of a write, or contains it.\<close>

definition overlaps_target :: "HexAddress \<Rightarrow> int \<Rightarrow> Patch \<Rightarrow> bool" where
  "overlaps_target a n p \<longleftrightarrow> patch_addr p \<le> a + n - 1 \<and> a \<le> patch_addr p + patch_len p - 1"

definition contains_target :: "HexAddress \<Rightarrow> int \<Rightarrow> Patch \<Rightarrow> bool" where
  "contains_target a n p \<longleftrightarrow> patch_addr p \<le> a \<and> a + n - 1 \<le> patch_addr p + patch_len p - 1"

section \<open>Address geometry: rows and columns\<close>

lemma and_15: "(k::int) AND 15 = k mod 16"
proof -
  have "k AND mask 4 = k mod 2 ^ 4"
    by (simp only: take_bit_eq_mask [symmetric] take_bit_eq_mod)
  thus ?thesis by (simp add: mask_eq_exp_minus_1)
qed

lemma drop_bit_4: "drop_bit 4 (k::int) = k div 16"
  by (simp add: drop_bit_eq_div)

lemma row_aligned: "(s::int) AND NOT 15 = 16 * (s div 16)"
proof -
  have "s AND NOT (mask 4) = push_bit 4 (drop_bit 4 s)"
    by (rule bit_eqI) (auto simp add: bit_simps)
  thus ?thesis
    by (simp add: push_bit_eq_mult drop_bit_eq_div mask_eq_exp_minus_1)
qed

lemma row_aligned_minus: "(s::int) AND - 16 = 16 * (s div 16)"
  using row_aligned [of s] by simp

lemma row_aligned_le: "16 * ((s::int) div 16) \<le> s"
  by presburger

text \<open>
  Claim C1. For every address \<open>a\<close> with \<open>start_addr \<le> a < end_addr\<close>, the row and
  column that \<^verbatim>\<open>addr_to_row_col\<close> computes are mapped back to \<open>a\<close> by
  \<^verbatim>\<open>row_col_to_addr\<close>. The decomposition is relative to the start address rounded down
  to a multiple of 16: the row is the quotient and the column the remainder of the
  distance from that base by 16, and the row is not negative.
\<close>

theorem addr_row_col_roundtrip:
  assumes "start_addr h \<le> a" and "a < end_addr h"
  shows "row_col_to_addr h (fst (addr_to_row_col h a)) (snd (addr_to_row_col h a)) = a
       \<and> addr_to_row_col h a =
           ((a - 16 * (start_addr h div 16)) div 16, (a - 16 * (start_addr h div 16)) mod 16)
       \<and> 0 \<le> fst (addr_to_row_col h a)"
proof -
  have rc: "addr_to_row_col h a =
      ((a - 16 * (start_addr h div 16)) div 16, (a - 16 * (start_addr h div 16)) mod 16)"
    by (simp add: addr_to_row_col_def Let_def and_15 drop_bit_4 row_aligned_minus)
  have inv: "row_col_to_addr h (fst (addr_to_row_col h a)) (snd (addr_to_row_col h a)) = a"
    unfolding rc by (simp add: row_col_to_addr_def row_aligned_minus)
  have "0 \<le> a - 16 * (start_addr h div 16)"
    using assms(1) row_aligned_le [of "start_addr h"] by linarith
  hence "0 \<le> fst (addr_to_row_col h a)"
    unfolding rc by (simp add: pos_imp_zdiv_nonneg_iff)
  with rc inv show ?thesis by blast
qed

text \<open>The theorem at the address \<open>0x1015\<close> of a region that starts at \<open>0x1003\<close>, in the
  middle of a row: row 1, column 5.\<close>

theorem addr_row_col_roundtrip_witness:
  "start_addr (init_HexGraphicsObject\<lparr>start_addr := 0x1003, end_addr := 0x1020\<rparr>) \<le> 0x1015
   \<and> 0x1015 < end_addr (init_HexGraphicsObject\<lparr>start_addr := 0x1003, end_addr := 0x1020\<rparr>)
   \<and> addr_to_row_col (init_HexGraphicsObject\<lparr>start_addr := 0x1003, end_addr := 0x1020\<rparr>) 0x1015 = (1, 5)
   \<and> row_col_to_addr (init_HexGraphicsObject\<lparr>start_addr := 0x1003, end_addr := 0x1020\<rparr>) 1 5 = 0x1015"
proof -
  let ?h = "init_HexGraphicsObject\<lparr>start_addr := 0x1003, end_addr := 0x1020\<rparr>"
  have lo: "start_addr ?h \<le> 0x1015" by simp
  have hi: "0x1015 < end_addr ?h" by simp
  note rt = addr_row_col_roundtrip [OF lo hi]
  from rt have rc: "addr_to_row_col ?h 0x1015 = (1, 5)" by simp
  from rt have "row_col_to_addr ?h 1 5 = 0x1015" unfolding rc by simp
  with lo hi rc show ?thesis by blast
qed

section \<open>The cursor\<close>

text \<open>A move is rejected, and nothing changes, when the address is outside the region or
  another move is in progress. An accepted move sets the cursor and the nibble position and
  emits the signal once.\<close>

lemma set_cursor_rejected:
  "a < start_addr h \<or> end_addr h \<le> a \<or> processing_cursor_update h \<Longrightarrow> set_cursor a ac nb h = h"
  by (auto simp add: set_cursor_def)

lemma update_active_fields [simp]:
  "cursor (update_active_highlight_regions h) = cursor h"
  "start_addr (update_active_highlight_regions h) = start_addr h"
  "end_addr (update_active_highlight_regions h) = end_addr h"
  "cursor_nibble (update_active_highlight_regions h) = cursor_nibble h"
  "selection_start (update_active_highlight_regions h) = selection_start h"
  "cursor_changed_emitted (update_active_highlight_regions h) = cursor_changed_emitted h"
  "processing_cursor_update (update_active_highlight_regions h) = processing_cursor_update h"
  by (simp_all add: update_active_highlight_regions_def split: prod.splits)

lemma set_cursor_accepted:
  assumes "start_addr h \<le> a" "a < end_addr h" "\<not> processing_cursor_update h"
  shows "cursor (set_cursor a ac nb h) = a"
    and "cursor_nibble (set_cursor a ac nb h) = nb"
    and "start_addr (set_cursor a ac nb h) = start_addr h"
    and "end_addr (set_cursor a ac nb h) = end_addr h"
    and "selection_start (set_cursor a ac nb h) = selection_start h"
    and "processing_cursor_update (set_cursor a ac nb h) = False"
    and "cursor_changed_emitted (set_cursor a ac nb h) = Suc (cursor_changed_emitted h)"
  using assms
  by (simp_all add: set_cursor_def Let_def restart_cursor_blink_timer_def split: option.splits)

lemma set_cursor_bounds [simp]:
  "start_addr (set_cursor a ac nb h) = start_addr h"
  "end_addr (set_cursor a ac nb h) = end_addr h"
  "selection_start (set_cursor a ac nb h) = selection_start h"
  by (simp_all add: set_cursor_def Let_def restart_cursor_blink_timer_def split: option.splits)

lemma set_cursor_in_bounds: "cursor_in_bounds h \<Longrightarrow> cursor_in_bounds (set_cursor a ac nb h)"
  by (cases "a < start_addr h \<or> end_addr h \<le> a \<or> processing_cursor_update h")
     (auto simp add: set_cursor_rejected cursor_in_bounds_def set_cursor_accepted)


lemma set_cursor_regions:
  assumes "start_addr h \<le> a" "a < end_addr h" "\<not> processing_cursor_update h"
  shows "highlighted_regions (set_cursor a ac nb h) =
           (if cursor h = a then highlighted_regions h
            else highlighted_regions (update_active_highlight_regions (h\<lparr>cursor := a\<rparr>)))"
  using assms
  by (simp add: set_cursor_def Let_def restart_cursor_blink_timer_def
        update_active_highlight_regions_def active_range_def split: option.splits prod.splits)

text \<open>
  Claim C7, as amended. Every accepted cursor move (the address is within bounds and no
  move is in progress) emits the cursor-changed event exactly once, whether or not the
  address differs from the previous cursor; the move stores the address and the nibble
  position. What depends on the address having changed is the recomputation of the
  regions' active flags: they are recomputed when it changed and left as they are when it
  did not.
\<close>

theorem set_cursor_emits_once:
  assumes "start_addr h \<le> a" and "a < end_addr h" and "\<not> processing_cursor_update h"
  shows "cursor_changed_emitted (set_cursor a ac nb h) = Suc (cursor_changed_emitted h)
       \<and> cursor (set_cursor a ac nb h) = a
       \<and> cursor_nibble (set_cursor a ac nb h) = nb
       \<and> highlighted_regions (set_cursor a ac nb h) =
           (if cursor h = a then highlighted_regions h
            else highlighted_regions (update_active_highlight_regions (h\<lparr>cursor := a\<rparr>)))"
  using set_cursor_accepted(1,2,7) [OF assms] set_cursor_regions [OF assms] by blast

text \<open>The claim as stated fails: in a region of 16 bytes with the cursor at address 0, the
  accepted move to address 0 emits the event.\<close>

theorem set_cursor_same_address_counterexample:
  "start_addr (init_HexGraphicsObject\<lparr>num_bytes := 16, end_addr := 16\<rparr>) \<le> 0
   \<and> 0 < end_addr (init_HexGraphicsObject\<lparr>num_bytes := 16, end_addr := 16\<rparr>)
   \<and> \<not> processing_cursor_update (init_HexGraphicsObject\<lparr>num_bytes := 16, end_addr := 16\<rparr>)
   \<and> cursor (init_HexGraphicsObject\<lparr>num_bytes := 16, end_addr := 16\<rparr>) = 0
   \<and> cursor_changed_emitted
        (set_cursor 0 None None (init_HexGraphicsObject\<lparr>num_bytes := 16, end_addr := 16\<rparr>))
      \<noteq> cursor_changed_emitted (init_HexGraphicsObject\<lparr>num_bytes := 16, end_addr := 16\<rparr>)"
  by (simp add: init_HexGraphicsObject_def set_cursor_def)

text \<open>The amended claim at two accepted moves, one to the cursor's own address and one
  to another address.\<close>

theorem set_cursor_emits_once_witness:
  "cursor_changed_emitted
     (set_cursor 0 None None (init_HexGraphicsObject\<lparr>num_bytes := 16, end_addr := 16\<rparr>)) = 1
   \<and> cursor_changed_emitted
     (set_cursor 7 None (Some 1) (init_HexGraphicsObject\<lparr>num_bytes := 16, end_addr := 16\<rparr>)) = 1"
proof -
  let ?h = "init_HexGraphicsObject\<lparr>num_bytes := 16, end_addr := 16\<rparr>"
  have np: "\<not> processing_cursor_update ?h" by (simp add: init_HexGraphicsObject_def)
  have e: "cursor_changed_emitted ?h = 0" by (simp add: init_HexGraphicsObject_def)
  have lo0: "start_addr ?h \<le> 0" and lo7: "start_addr ?h \<le> 7"
    by (simp_all add: init_HexGraphicsObject_def)
  have hi0: "0 < end_addr ?h" and hi7: "7 < end_addr ?h" by simp_all
  from set_cursor_emits_once [OF lo0 hi0 np, of None None]
       set_cursor_emits_once [OF lo7 hi7 np, of None "Some 1"] e
  show ?thesis by simp
qed

section \<open>Editing a byte\<close>

lemma set_byte_value_in_bounds:
  "cursor_in_bounds h \<Longrightarrow> cursor_in_bounds (fst (set_byte_value write_func v (h, m)))"
  by (simp add: set_byte_value_def set_cursor_in_bounds split: prod.splits)

text \<open>
  Claim C10. A successful byte edit at the last address (the cursor is \<open>end_addr - 1\<close>)
  performs the write, whose effect on the owner of the bytes is kept, and leaves the
  whole state of the view as it was, the cursor at \<open>end_addr - 1\<close> included: the move to
  \<open>end_addr\<close> is rejected by the bounds check of \<^verbatim>\<open>set_cursor\<close>. No byte edit moves a
  cursor that is within bounds out of them.
\<close>

theorem set_byte_value_last_address:
  "(cursor h = end_addr h - 1 \<and> write_func (cursor h) v m = (True, m')
      \<longrightarrow> set_byte_value write_func v (h, m) = (h, m'))
   \<and> (cursor_in_bounds h \<longrightarrow> cursor_in_bounds (fst (set_byte_value write_func v (h, m))))"
proof (intro conjI impI)
  assume a: "cursor h = end_addr h - 1 \<and> write_func (cursor h) v m = (True, m')"
  from a have w: "write_func (cursor h) v m = (True, m')" by (rule conjunct2)
  from a have "end_addr h \<le> cursor h + 1" by simp
  hence r: "set_cursor (cursor h + 1) None None h = h" by (simp add: set_cursor_rejected)
  show "set_byte_value write_func v (h, m) = (h, m')"
    unfolding set_byte_value_def by (simp add: w r)
next
  assume "cursor_in_bounds h"
  thus "cursor_in_bounds (fst (set_byte_value write_func v (h, m)))"
    by (rule set_byte_value_in_bounds)
qed

text \<open>The theorem at the last address of a 16-byte region, with a write callback that
  records what it is given.\<close>

theorem set_byte_value_last_address_witness:
  "cursor (init_HexGraphicsObject\<lparr>num_bytes := 16, end_addr := 16, cursor := 15\<rparr>) = 15
   \<and> set_byte_value (\<lambda>a v m. (True, (a, v) # m)) 0x41
        (init_HexGraphicsObject\<lparr>num_bytes := 16, end_addr := 16, cursor := 15\<rparr>, [])
      = (init_HexGraphicsObject\<lparr>num_bytes := 16, end_addr := 16, cursor := 15\<rparr>, [(15, 0x41)])"
proof -
  let ?h = "init_HexGraphicsObject\<lparr>num_bytes := 16, end_addr := 16, cursor := 15\<rparr>"
  let ?w = "\<lambda>a v m. (True, (a, v) # m) :: bool \<times> (int \<times> int) list"
  have c: "cursor ?h = end_addr ?h - 1" by simp
  have w: "?w (cursor ?h) 0x41 [] = (True, [(15, 0x41)])" by simp
  from set_byte_value_last_address [of ?h ?w "0x41" "[]" "[(15, 0x41)]"] c w
  have "set_byte_value ?w 0x41 (?h, []) = (?h, [(15, 0x41)])" by blast
  thus ?thesis by simp
qed


section \<open>The cursor invariant\<close>

lemma set_data_callback_establishes:
  assumes "0 < n" and "\<not> processing_cursor_update h"
  shows "\<exists>h'. set_data_callback s n h = Inr h' \<and> cursor_in_bounds h' \<and> cursor h' = s
            \<and> start_addr h' = s \<and> end_addr h' = s + n"
proof -
  let ?h1 = "h\<lparr>start_addr := s, num_bytes := n, end_addr := s + n\<rparr>"
  have lo: "start_addr ?h1 \<le> s" and hi: "s < end_addr ?h1" and np: "\<not> processing_cursor_update ?h1"
    using assms by simp_all
  have "set_data_callback s n h = Inr (set_cursor s None None ?h1)"
    using assms(1) by (simp add: set_data_callback_def set_data_common_def Let_def)
  moreover have "cursor (set_cursor s None None ?h1) = s"
    by (rule set_cursor_accepted(1) [OF lo hi np])
  moreover have "start_addr (set_cursor s None None ?h1) = s"
    and "end_addr (set_cursor s None None ?h1) = s + n" by simp_all
  ultimately show ?thesis using assms(1) by (simp add: cursor_in_bounds_def)
qed

lemma set_nibble_value_in_bounds:
  "cursor_in_bounds h \<Longrightarrow> set_nibble_value write_func read_func v (h, m) = Inr (h', m')
     \<Longrightarrow> cursor_in_bounds h'"
  by (auto simp add: set_nibble_value_def Let_def set_cursor_in_bounds
        split: sum.splits prod.splits if_splits)

lemma selection_in_bounds:
  "cursor_in_bounds (begin_selection h) = cursor_in_bounds h"
  "cursor_in_bounds (clear_selection h) = cursor_in_bounds h"
  "cursor_in_bounds (set_highlight_regions rs h) = cursor_in_bounds h"
  by (simp_all add: cursor_in_bounds_def begin_selection_def clear_selection_def
        set_highlight_regions_def)

lemma keyPressEvent_movement_in_bounds:
  "cursor_in_bounds h \<Longrightarrow> cursor_in_bounds (keyPressEvent_movement d shift h)"
  by (simp add: keyPressEvent_movement_def Let_def set_cursor_in_bounds selection_in_bounds)

lemma mouseDoubleClickEvent_in_bounds:
  "cursor_in_bounds h \<Longrightarrow> cursor_in_bounds (mouseDoubleClickEvent h)"
  by (simp add: mouseDoubleClickEvent_def Let_def set_cursor_in_bounds selection_in_bounds
        split: list.splits)

text \<open>
  Claim C6, as amended. Every operation on the view that moves the cursor or changes the
  selection preserves \<open>start_addr \<le> cursor < end_addr\<close>: \<^verbatim>\<open>set_cursor\<close>,
  \<^verbatim>\<open>begin_selection\<close>, \<^verbatim>\<open>clear_selection\<close>, \<^verbatim>\<open>set_highlight_regions\<close>, the movement
  keys, the double click, the byte edit and the nibble edit. A cursor move to an address
  outside \<open>[start_addr, end_addr)\<close> is a no-op: the whole state is unchanged and no error
  is raised. Assigning a region of at least one byte, while no move is in progress,
  establishes the invariant with the cursor at the region's start. (For a region of no
  bytes, as after construction, no cursor is within bounds.)
\<close>

theorem cursor_bounds_preserved:
  "(cursor_in_bounds h \<longrightarrow>
       cursor_in_bounds (set_cursor a ac nb h)
     \<and> cursor_in_bounds (begin_selection h)
     \<and> cursor_in_bounds (clear_selection h)
     \<and> cursor_in_bounds (set_highlight_regions rs h)
     \<and> cursor_in_bounds (keyPressEvent_movement d shift h)
     \<and> cursor_in_bounds (mouseDoubleClickEvent h)
     \<and> cursor_in_bounds (fst (set_byte_value write_func v (h, m))))
   \<and> (cursor_in_bounds h \<and> set_nibble_value write_func read_func v (h, m) = Inr (h', m')
        \<longrightarrow> cursor_in_bounds h')
   \<and> (a < start_addr h \<or> end_addr h \<le> a \<longrightarrow> set_cursor a ac nb h = h)
   \<and> (0 < n \<and> \<not> processing_cursor_update h \<longrightarrow>
        (\<exists>h'. set_data_callback s n h = Inr h' \<and> cursor_in_bounds h' \<and> cursor h' = s))"
proof (intro conjI impI)
  assume "0 < n \<and> \<not> processing_cursor_update h"
  hence "0 < n" and "\<not> processing_cursor_update h" by simp_all
  from set_data_callback_establishes [OF this, of s]
  show "\<exists>h'. set_data_callback s n h = Inr h' \<and> cursor_in_bounds h' \<and> cursor h' = s"
    by blast
next
  assume "cursor_in_bounds h \<and> set_nibble_value write_func read_func v (h, m) = Inr (h', m')"
  thus "cursor_in_bounds h'" by (elim conjE) (rule set_nibble_value_in_bounds)
next
  assume "a < start_addr h \<or> end_addr h \<le> a"
  thus "set_cursor a ac nb h = h" by (auto simp add: set_cursor_rejected)
qed (simp_all add: set_cursor_in_bounds selection_in_bounds keyPressEvent_movement_in_bounds
       mouseDoubleClickEvent_in_bounds set_byte_value_in_bounds set_cursor_rejected)

text \<open>The claim as stated fails, the invariant does not hold at all times: with the cursor
  at 5 in a region of 16 bytes, assigning an empty region leaves the cursor at 5, outside
  the empty range \<open>[0, 0)\<close>; and the state after construction has the cursor 0 and the
  empty range \<open>[0, 0)\<close>.\<close>

theorem cursor_bounds_counterexample:
  "cursor_in_bounds (init_HexGraphicsObject\<lparr>num_bytes := 16, end_addr := 16, cursor := 5\<rparr>)
   \<and> set_data_callback 0 0 (init_HexGraphicsObject\<lparr>num_bytes := 16, end_addr := 16, cursor := 5\<rparr>)
       = Inr (init_HexGraphicsObject\<lparr>cursor := 5\<rparr>)
   \<and> \<not> cursor_in_bounds (init_HexGraphicsObject\<lparr>cursor := 5\<rparr>)
   \<and> \<not> cursor_in_bounds init_HexGraphicsObject"
  by (simp add: cursor_in_bounds_def init_HexGraphicsObject_def set_data_callback_def
        set_data_common_def set_cursor_def)

text \<open>The amended claim at a region of 16 bytes with the cursor at 5: an accepted move, a
  rejected move to \<open>end_addr\<close>, and the assignment of 32 bytes at \<open>0x1000\<close> to a new
  view.\<close>

theorem cursor_bounds_preserved_witness:
  "cursor_in_bounds (init_HexGraphicsObject\<lparr>num_bytes := 16, end_addr := 16, cursor := 5\<rparr>)
   \<and> cursor_in_bounds
        (set_cursor 9 None None (init_HexGraphicsObject\<lparr>num_bytes := 16, end_addr := 16, cursor := 5\<rparr>))
   \<and> set_cursor 16 None None (init_HexGraphicsObject\<lparr>num_bytes := 16, end_addr := 16, cursor := 5\<rparr>)
        = init_HexGraphicsObject\<lparr>num_bytes := 16, end_addr := 16, cursor := 5\<rparr>
   \<and> (\<exists>h'. set_data_callback 0x1000 32 init_HexGraphicsObject = Inr h' \<and> cursor_in_bounds h'
          \<and> cursor h' = 0x1000)"
proof -
  let ?h = "init_HexGraphicsObject\<lparr>num_bytes := 16, end_addr := 16, cursor := 5\<rparr>"
  have b: "cursor_in_bounds ?h"
    by (simp add: cursor_in_bounds_def init_HexGraphicsObject_def)
  have np: "\<not> processing_cursor_update init_HexGraphicsObject"
    by (simp add: init_HexGraphicsObject_def)
  have out: "end_addr ?h \<le> 16" by simp
  let ?w = "\<lambda>a v m. (True, m) :: bool \<times> unit"
  let ?r = "\<lambda>m a. IntValue 0 :: HexByteValue"
  note t1 = cursor_bounds_preserved [where h = ?h and a = 9 and ac = None and nb = None
      and rs = "[]" and d = 1 and shift = False and write_func = ?w and read_func = ?r
      and v = 0 and m = "()" and h' = ?h and m' = "()" and n = 1 and s = 0]
  note t2 = cursor_bounds_preserved [where h = ?h and a = 16 and ac = None and nb = None
      and rs = "[]" and d = 1 and shift = False and write_func = ?w and read_func = ?r
      and v = 0 and m = "()" and h' = ?h and m' = "()" and n = 1 and s = 0]
  note t3 = cursor_bounds_preserved [where h = init_HexGraphicsObject and a = 0 and ac = None
      and nb = None and rs = "[]" and d = 1 and shift = False and write_func = ?w
      and read_func = ?r and v = 0 and m = "()" and h' = ?h and m' = "()" and n = 32
      and s = "0x1000"]
  from t1 b have 1: "cursor_in_bounds (set_cursor 9 None None ?h)" by (elim conjE) simp
  from t2 out have 2: "set_cursor 16 None None ?h = ?h" by (elim conjE) simp
  from t3 np have 3: "\<exists>h'. set_data_callback 0x1000 32 init_HexGraphicsObject = Inr h'
      \<and> cursor_in_bounds h' \<and> cursor h' = 0x1000" by (elim conjE) simp
  from b 1 2 3 show ?thesis by (intro conjI)
qed


section \<open>Editing a nibble\<close>

lemma set_nibble_value_unfold:
  assumes "0 \<le> pending_nibble h"
  shows "set_nibble_value write_func read_func v (h, m) =
     (case write_func (cursor h) (nibble_byte_value (read_func m (cursor h)) (pending_nibble h) v) m of
        (ok, m') \<Rightarrow>
          if \<not> ok then Inr (h, m')
          else Inr (set_cursor (cursor h + (1 - pending_nibble h)) None
                      (Some (1 - pending_nibble h)) h, m'))"
  using assms
  by (cases "read_func m (cursor h)")
     (simp_all add: set_nibble_value_def Let_def py_lshift_def nibble_byte_value_def
        pending_nibble_def split: prod.splits)

text \<open>
  Claim C9, as amended. In a state whose cursor is within bounds and in which no move is
  in progress: when no nibble position is pending, a successful nibble write leaves the
  cursor address unchanged and sets \<open>cursor_nibble\<close> to 0, the low nibble; when the
  pending position is the low nibble and the cursor is not at the last address, a
  successful write advances the cursor by 1 and sets \<open>cursor_nibble\<close> to 1, the high
  nibble; at the last address the write is performed and the state of the view stays as it
  was, the move to \<open>end_addr\<close> being rejected. When the write callback refuses, the state
  of the view is unchanged: the cursor does not advance and no cursor-changed event is
  emitted.
\<close>

theorem set_nibble_value_cursor:
  assumes "cursor_in_bounds h" and "\<not> processing_cursor_update h"
  shows
   "(cursor_nibble h = None
       \<and> write_func (cursor h) (nibble_byte_value (read_func m (cursor h)) 1 v) m = (True, m')
     \<longrightarrow> (\<exists>h'. set_nibble_value write_func read_func v (h, m) = Inr (h', m')
              \<and> cursor h' = cursor h \<and> cursor_nibble h' = Some 0
              \<and> cursor_changed_emitted h' = Suc (cursor_changed_emitted h)))
    \<and> (cursor_nibble h = Some 0 \<and> cursor h + 1 < end_addr h
       \<and> write_func (cursor h) (nibble_byte_value (read_func m (cursor h)) 0 v) m = (True, m')
     \<longrightarrow> (\<exists>h'. set_nibble_value write_func read_func v (h, m) = Inr (h', m')
              \<and> cursor h' = cursor h + 1 \<and> cursor_nibble h' = Some 1
              \<and> cursor_changed_emitted h' = Suc (cursor_changed_emitted h)))
    \<and> (cursor_nibble h = Some 0 \<and> cursor h + 1 = end_addr h
       \<and> write_func (cursor h) (nibble_byte_value (read_func m (cursor h)) 0 v) m = (True, m')
     \<longrightarrow> set_nibble_value write_func read_func v (h, m) = Inr (h, m'))
    \<and> (0 \<le> pending_nibble h
       \<and> write_func (cursor h) (nibble_byte_value (read_func m (cursor h)) (pending_nibble h) v) m
           = (False, m')
     \<longrightarrow> set_nibble_value write_func read_func v (h, m) = Inr (h, m'))"
proof (intro conjI impI)
  assume a: "cursor_nibble h = None
       \<and> write_func (cursor h) (nibble_byte_value (read_func m (cursor h)) 1 v) m = (True, m')"
  hence pn: "pending_nibble h = 1" by (simp add: pending_nibble_def)
  have lo: "start_addr h \<le> cursor h" and hi: "cursor h < end_addr h"
    using assms(1) by (simp_all add: cursor_in_bounds_def)
  have "set_nibble_value write_func read_func v (h, m)
          = Inr (set_cursor (cursor h) None (Some 0) h, m')"
    using a by (simp add: set_nibble_value_unfold pn)
  with set_cursor_accepted(1,2,7) [OF lo hi assms(2), of None "Some 0"]
  show "\<exists>h'. set_nibble_value write_func read_func v (h, m) = Inr (h', m')
              \<and> cursor h' = cursor h \<and> cursor_nibble h' = Some 0
              \<and> cursor_changed_emitted h' = Suc (cursor_changed_emitted h)"
    by simp
next
  assume a: "cursor_nibble h = Some 0 \<and> cursor h + 1 < end_addr h
       \<and> write_func (cursor h) (nibble_byte_value (read_func m (cursor h)) 0 v) m = (True, m')"
  hence pn: "pending_nibble h = 0" by (simp add: pending_nibble_def)
  have lo: "start_addr h \<le> cursor h + 1" and hi: "cursor h + 1 < end_addr h"
    using assms(1) a by (simp_all add: cursor_in_bounds_def)
  have "set_nibble_value write_func read_func v (h, m)
          = Inr (set_cursor (cursor h + 1) None (Some 1) h, m')"
    using a by (simp add: set_nibble_value_unfold pn)
  with set_cursor_accepted(1,2,7) [OF lo hi assms(2), of None "Some 1"]
  show "\<exists>h'. set_nibble_value write_func read_func v (h, m) = Inr (h', m')
              \<and> cursor h' = cursor h + 1 \<and> cursor_nibble h' = Some 1
              \<and> cursor_changed_emitted h' = Suc (cursor_changed_emitted h)"
    by simp
next
  assume a: "cursor_nibble h = Some 0 \<and> cursor h + 1 = end_addr h
       \<and> write_func (cursor h) (nibble_byte_value (read_func m (cursor h)) 0 v) m = (True, m')"
  hence pn: "pending_nibble h = 0" by (simp add: pending_nibble_def)
  from a have "set_cursor (cursor h + 1) None (Some 1) h = h"
    by (simp add: set_cursor_rejected)
  thus "set_nibble_value write_func read_func v (h, m) = Inr (h, m')"
    using a by (simp add: set_nibble_value_unfold pn)
next
  assume a: "0 \<le> pending_nibble h
       \<and> write_func (cursor h) (nibble_byte_value (read_func m (cursor h)) (pending_nibble h) v) m
           = (False, m')"
  thus "set_nibble_value write_func read_func v (h, m) = Inr (h, m')"
    by (simp add: set_nibble_value_unfold)
qed

text \<open>The claim as stated fails at the last address: with the cursor at 15 in a region of
  16 bytes and the low nibble pending, the write of the nibble 7 over the byte \<open>0x40\<close>
  succeeds (the byte \<open>0x47\<close> is written at 15) and the cursor is still 15, not 16.\<close>

theorem set_nibble_value_last_address_counterexample:
  "cursor_nibble (init_HexGraphicsObject\<lparr>num_bytes := 16, end_addr := 16, cursor := 15,
       cursor_nibble := Some 0\<rparr>) = Some 0
   \<and> set_nibble_value (\<lambda>a v m. (True, (a, v) # m)) (\<lambda>m a. IntValue 0x40) 7
       (init_HexGraphicsObject\<lparr>num_bytes := 16, end_addr := 16, cursor := 15,
          cursor_nibble := Some 0\<rparr>, [])
     = Inr (init_HexGraphicsObject\<lparr>num_bytes := 16, end_addr := 16, cursor := 15,
              cursor_nibble := Some 0\<rparr>, [(15, 0x47)])
   \<and> cursor (init_HexGraphicsObject\<lparr>num_bytes := 16, end_addr := 16, cursor := 15,
       cursor_nibble := Some 0\<rparr>) = 15"
  by (simp add: init_HexGraphicsObject_def set_nibble_value_def py_lshift_def set_cursor_def)


text \<open>The amended claim at the cursor 3 of a 16-byte region with no nibble pending: the
  nibble \<open>0xC\<close> over the byte \<open>0xAB\<close> writes \<open>0xCB\<close>, and the cursor stays at 3 with the
  low nibble pending.\<close>

theorem set_nibble_value_cursor_witness:
  "cursor_in_bounds (init_HexGraphicsObject\<lparr>num_bytes := 16, end_addr := 16, cursor := 3\<rparr>)
   \<and> \<not> processing_cursor_update (init_HexGraphicsObject\<lparr>num_bytes := 16, end_addr := 16, cursor := 3\<rparr>)
   \<and> nibble_byte_value (IntValue 0xAB) 1 0xC = 0xCB
   \<and> (\<exists>h'. set_nibble_value (\<lambda>a v m. (True, (a, v) # m)) (\<lambda>m a. IntValue 0xAB) 0xC
              (init_HexGraphicsObject\<lparr>num_bytes := 16, end_addr := 16, cursor := 3\<rparr>, [])
            = Inr (h', [(3, 0xCB)])
          \<and> cursor h' = 3 \<and> cursor_nibble h' = Some 0 \<and> cursor_changed_emitted h' = 1)"
proof -
  let ?h = "init_HexGraphicsObject\<lparr>num_bytes := 16, end_addr := 16, cursor := 3\<rparr>"
  let ?w = "\<lambda>a v m. (True, (a, v) # m) :: bool \<times> (int \<times> int) list"
  let ?r = "\<lambda>(m :: (int \<times> int) list) (a :: int). IntValue 0xAB"
  have b: "cursor_in_bounds ?h"
    by (simp add: cursor_in_bounds_def init_HexGraphicsObject_def)
  have np: "\<not> processing_cursor_update ?h" by (simp add: init_HexGraphicsObject_def)
  have nv: "nibble_byte_value (IntValue 0xAB) 1 0xC = 0xCB"
    by (simp add: nibble_byte_value_def)
  have st: "cursor_nibble ?h = None" "cursor ?h = 3" "cursor_changed_emitted ?h = 0"
    by (simp_all add: init_HexGraphicsObject_def)
  have w: "?w (cursor ?h) (nibble_byte_value (?r [] (cursor ?h)) 1 0xC) [] = (True, [(3, 0xCB)])"
    by (simp add: nv)
  note t = set_nibble_value_cursor [OF b np, where write_func = ?w and read_func = ?r
      and v = "0xC" and m = "[]" and m' = "[(3, 0xCB)]"]
  from t st(1) w have "\<exists>h'. set_nibble_value ?w ?r 0xC (?h, []) = Inr (h', [(3, 0xCB)])
      \<and> cursor h' = cursor ?h \<and> cursor_nibble h' = Some 0
      \<and> cursor_changed_emitted h' = Suc (cursor_changed_emitted ?h)"
    by (elim conjE) blast
  hence "\<exists>h'. set_nibble_value ?w ?r 0xC (?h, []) = Inr (h', [(3, 0xCB)])
      \<and> cursor h' = 3 \<and> cursor_nibble h' = Some 0 \<and> cursor_changed_emitted h' = 1"
    unfolding st by simp
  with b np nv show ?thesis by (intro conjI)
qed

section \<open>The regions under the cursor\<close>

text \<open>The head of a stably sorted list is the first element of least key: every element
  before it in the unsorted list has a greater key, every element after it a key that is
  not less.\<close>

lemma sort_key_first:
  fixes f :: "'a \<Rightarrow> int"
  assumes "xs \<noteq> []"
  shows "\<exists>r rest front rear. sort_key f xs = r # rest \<and> xs = front @ r # rear
           \<and> (\<forall>a\<in>set front. f r < f a) \<and> (\<forall>b\<in>set rear. f r \<le> f b)"
  using assms
proof (induction xs)
  case Nil
  thus ?case by simp
next
  case (Cons x xs)
  show ?case
  proof (cases "xs = []")
    case True
    hence "sort_key f (x # xs) = x # [] \<and> x # xs = [] @ x # []
        \<and> (\<forall>a\<in>set []. f x < f a) \<and> (\<forall>b\<in>set []. f x \<le> f b)" by simp
    thus ?thesis by blast
  next
    case False
    from Cons.IH [OF False] obtain r rest front rear where
      s: "sort_key f xs = r # rest" and d: "xs = front @ r # rear"
      and lo: "\<forall>a\<in>set front. f r < f a" and hi: "\<forall>b\<in>set rear. f r \<le> f b" by blast
    have step: "sort_key f (x # xs) = insort_key f x (r # rest)"
      by (simp add: s)
    show ?thesis
    proof (cases "f x \<le> f r")
      case True
      have "\<forall>b\<in>set xs. f x \<le> f b"
        using True lo hi by (auto simp add: d)
      moreover have "sort_key f (x # xs) = x # (r # rest)"
        unfolding step using True by simp
      ultimately have "sort_key f (x # xs) = x # (r # rest) \<and> x # xs = [] @ x # xs
          \<and> (\<forall>a\<in>set []. f x < f a) \<and> (\<forall>b\<in>set xs. f x \<le> f b)"
        by simp
      thus ?thesis by blast
    next
      case False
      have "sort_key f (x # xs) = r # insort_key f x rest"
        unfolding step using False by simp
      moreover have "x # xs = (x # front) @ r # rear" by (simp add: d)
      moreover have "\<forall>a\<in>set (x # front). f r < f a" using False lo by simp
      ultimately have "sort_key f (x # xs) = r # insort_key f x rest
          \<and> x # xs = (x # front) @ r # rear
          \<and> (\<forall>a\<in>set (x # front). f r < f a) \<and> (\<forall>b\<in>set rear. f r \<le> f b)"
        using hi by blast
      thus ?thesis by blast
    qed
  qed
qed

text \<open>
  Claim C8, as amended. For every cursor position and every list of highlight regions, the
  lookup under the cursor returns exactly the regions with
  \<open>addr \<le> cursor < addr + size\<close>, each as often as it stands in the list of regions and
  in the order of that list. The double-click handler sorts this result by ascending
  \<open>cursor - addr\<close>: its list is ordered nearest start first, holds the same regions, and
  keeps the list order among regions at the same distance. With no region under the
  cursor the double click changes nothing; otherwise the handler takes the region of least
  distance, the first such in list order, moves the cursor to the region's last address,
  begins the selection and moves the cursor to the region's address.
\<close>

theorem regions_under_cursor_in_list_order:
  "get_highlight_regions_under_cursor h =
      filter (\<lambda>r. addr r \<le> cursor h \<and> cursor h < addr r + size_r r) (highlighted_regions h)
   \<and> set (get_highlight_regions_under_cursor h) =
      {r \<in> set (highlighted_regions h). addr r \<le> cursor h \<and> cursor h < addr r + size_r r}
   \<and> subseq (get_highlight_regions_under_cursor h) (highlighted_regions h)
   \<and> sorted (map (\<lambda>r. cursor h - addr r) (mouseDoubleClickEvent_regions h))
   \<and> mset (mouseDoubleClickEvent_regions h) = mset (get_highlight_regions_under_cursor h)
   \<and> filter (\<lambda>r. cursor h - addr r = k) (mouseDoubleClickEvent_regions h)
       = filter (\<lambda>r. cursor h - addr r = k) (get_highlight_regions_under_cursor h)
   \<and> (get_highlight_regions_under_cursor h = [] \<longrightarrow> mouseDoubleClickEvent h = h)
   \<and> (get_highlight_regions_under_cursor h \<noteq> [] \<longrightarrow>
        (\<exists>r front rear.
            get_highlight_regions_under_cursor h = front @ r # rear
          \<and> (\<forall>a\<in>set front. cursor h - addr r < cursor h - addr a)
          \<and> (\<forall>b\<in>set rear. cursor h - addr r \<le> cursor h - addr b)
          \<and> mouseDoubleClickEvent h =
              set_cursor (addr r) None None
                (begin_selection (set_cursor (addr r + size_r r - 1) None None h))))"
proof -
  let ?key = "\<lambda>r. cursor h - addr r"
  let ?under = "get_highlight_regions_under_cursor h"
  have 1: "?under =
      filter (\<lambda>r. addr r \<le> cursor h \<and> cursor h < addr r + size_r r) (highlighted_regions h)"
    by (simp add: get_highlight_regions_under_cursor_def)
  have 2: "set ?under =
      {r \<in> set (highlighted_regions h). addr r \<le> cursor h \<and> cursor h < addr r + size_r r}"
    unfolding 1 by auto
  have 3: "subseq ?under (highlighted_regions h)" unfolding 1 by simp
  have 4: "sorted (map ?key (mouseDoubleClickEvent_regions h))"
    by (simp add: mouseDoubleClickEvent_regions_def)
  have 5: "mset (mouseDoubleClickEvent_regions h) = mset ?under"
    by (simp add: mouseDoubleClickEvent_regions_def)
  have 6: "filter (\<lambda>r. ?key r = k) (mouseDoubleClickEvent_regions h)
       = filter (\<lambda>r. ?key r = k) ?under"
    by (simp add: mouseDoubleClickEvent_regions_def sort_key_stable)
  have 7: "?under = [] \<longrightarrow> mouseDoubleClickEvent h = h"
    by (simp add: mouseDoubleClickEvent_def mouseDoubleClickEvent_regions_def)
  have 8: "?under \<noteq> [] \<longrightarrow>
        (\<exists>r front rear. ?under = front @ r # rear
          \<and> (\<forall>a\<in>set front. ?key r < ?key a)
          \<and> (\<forall>b\<in>set rear. ?key r \<le> ?key b)
          \<and> mouseDoubleClickEvent h =
              set_cursor (addr r) None None
                (begin_selection (set_cursor (addr r + size_r r - 1) None None h)))"
  proof
    assume "?under \<noteq> []"
    from sort_key_first [OF this, of ?key] obtain r rest front rear where
      s: "sort_key ?key ?under = r # rest" and d: "?under = front @ r # rear"
      and lo: "\<forall>a\<in>set front. ?key r < ?key a" and hi: "\<forall>b\<in>set rear. ?key r \<le> ?key b"
      by blast
    have "mouseDoubleClickEvent h =
              set_cursor (addr r) None None
                (begin_selection (set_cursor (addr r + size_r r - 1) None None h))"
      by (simp add: mouseDoubleClickEvent_def mouseDoubleClickEvent_regions_def s)
    with d lo hi show "\<exists>r front rear. ?under = front @ r # rear
          \<and> (\<forall>a\<in>set front. ?key r < ?key a)
          \<and> (\<forall>b\<in>set rear. ?key r \<le> ?key b)
          \<and> mouseDoubleClickEvent h =
              set_cursor (addr r) None None
                (begin_selection (set_cursor (addr r + size_r r - 1) None None h))"
      by blast
  qed
  from 1 2 3 4 5 6 7 8 show ?thesis by (intro conjI)
qed

text \<open>The claim as stated fails: with the cursor at 5 and the regions \<open>[0, 10)\<close> and
  \<open>[4, 6)\<close> in this order, the lookup returns both in this order, at the distances 5
  and 1.\<close>

theorem regions_under_cursor_counterexample:
  "get_highlight_regions_under_cursor
     (init_HexGraphicsObject\<lparr>num_bytes := 16, end_addr := 16, cursor := 5,
        highlighted_regions := [new_HexHighlightRegion Green 0 10, new_HexHighlightRegion DataColor 4 2]\<rparr>)
     = [new_HexHighlightRegion Green 0 10, new_HexHighlightRegion DataColor 4 2]
   \<and> map (\<lambda>r. 5 - addr r) [new_HexHighlightRegion Green 0 10, new_HexHighlightRegion DataColor 4 2]
       = [5, 1]
   \<and> \<not> sorted (map (\<lambda>r. 5 - addr r)
        (get_highlight_regions_under_cursor
          (init_HexGraphicsObject\<lparr>num_bytes := 16, end_addr := 16, cursor := 5,
             highlighted_regions :=
               [new_HexHighlightRegion Green 0 10, new_HexHighlightRegion DataColor 4 2]\<rparr>)))"
  by (simp add: get_highlight_regions_under_cursor_def new_HexHighlightRegion_def
        init_HexGraphicsObject_def)

text \<open>The amended claim at the cursor 5 under the regions \<open>[2, 11)\<close> and \<open>[4, 9)\<close>, in
  this order: the lookup returns both in this order, and the double click takes the second,
  the nearer one, and selects \<open>[4, 8]\<close>.\<close>

theorem regions_under_cursor_in_list_order_witness:
  "get_highlight_regions_under_cursor
     (init_HexGraphicsObject\<lparr>num_bytes := 16, end_addr := 16, cursor := 5,
        highlighted_regions := [new_HexHighlightRegion Green 2 9, new_HexHighlightRegion DataColor 4 5]\<rparr>)
     = [new_HexHighlightRegion Green 2 9, new_HexHighlightRegion DataColor 4 5]
   \<and> cursor (mouseDoubleClickEvent
        (init_HexGraphicsObject\<lparr>num_bytes := 16, end_addr := 16, cursor := 5,
           highlighted_regions :=
             [new_HexHighlightRegion Green 2 9, new_HexHighlightRegion DataColor 4 5]\<rparr>)) = 4
   \<and> get_selection (mouseDoubleClickEvent
        (init_HexGraphicsObject\<lparr>num_bytes := 16, end_addr := 16, cursor := 5,
           highlighted_regions :=
             [new_HexHighlightRegion Green 2 9, new_HexHighlightRegion DataColor 4 5]\<rparr>))
       = Some (4, 8)"
proof -
  let ?r1 = "new_HexHighlightRegion Green 2 9"
  let ?r2 = "new_HexHighlightRegion DataColor 4 5"
  let ?h = "init_HexGraphicsObject\<lparr>num_bytes := 16, end_addr := 16, cursor := 5,
        highlighted_regions := [?r1, ?r2]\<rparr>"
  note t = regions_under_cursor_in_list_order [of ?h 0]
  note t1 = t [THEN conjunct1]
  note t8 = t [THEN conjunct2, THEN conjunct2, THEN conjunct2, THEN conjunct2,
      THEN conjunct2, THEN conjunct2, THEN conjunct2]
  have u: "get_highlight_regions_under_cursor ?h = [?r1, ?r2]"
    unfolding t1 by (simp add: new_HexHighlightRegion_def)
  have ne: "get_highlight_regions_under_cursor ?h \<noteq> []" unfolding u by simp
  from t8 ne have "\<exists>r front rear.
      get_highlight_regions_under_cursor ?h = front @ r # rear
      \<and> (\<forall>a\<in>set front. cursor ?h - addr r < cursor ?h - addr a)
      \<and> (\<forall>b\<in>set rear. cursor ?h - addr r \<le> cursor ?h - addr b)
      \<and> mouseDoubleClickEvent ?h =
          set_cursor (addr r) None None
            (begin_selection (set_cursor (addr r + size_r r - 1) None None ?h))"
    by (rule mp)
  then obtain r front rear where
    d0: "get_highlight_regions_under_cursor ?h = front @ r # rear"
    and lo: "\<forall>a\<in>set front. cursor ?h - addr r < cursor ?h - addr a"
    and hi: "\<forall>b\<in>set rear. cursor ?h - addr r \<le> cursor ?h - addr b"
    and ev: "mouseDoubleClickEvent ?h =
              set_cursor (addr r) None None
                (begin_selection (set_cursor (addr r + size_r r - 1) None None ?h))"
    by blast
  from d0 have d: "[?r1, ?r2] = front @ r # rear" unfolding u .
  from d have "front = [] \<and> r = ?r1 \<and> rear = [?r2] \<or> front = [?r1] \<and> r = ?r2 \<and> rear = []"
    by (auto simp add: Cons_eq_append_conv)
  with hi have r: "r = ?r2" by (auto simp add: new_HexHighlightRegion_def)
  have "mouseDoubleClickEvent ?h =
      set_cursor 4 None None (begin_selection (set_cursor 8 None None ?h))"
    unfolding ev r by (simp add: new_HexHighlightRegion_def)
  hence "cursor (mouseDoubleClickEvent ?h) = 4"
    and "get_selection (mouseDoubleClickEvent ?h) = Some (4, 8)"
    by (simp_all add: set_cursor_def begin_selection_def init_HexGraphicsObject_def
          get_selection_def update_active_highlight_regions_def active_range_def Let_def)
  with u show ?thesis by (intro conjI)
qed

section \<open>The active flags\<close>

text \<open>Recomputing the flags makes them agree with the overlap test, so assigning the
  regions establishes the agreement and a cursor move keeps it.\<close>

lemma update_active_flags_current: "active_flags_current (update_active_highlight_regions h)"
  by (simp add: active_flags_current_def update_active_highlight_regions_def
        region_overlaps_range_def active_range_def list_all_iff Let_def
        split: option.splits prod.splits) auto

lemma set_highlight_regions_flags_current: "active_flags_current (set_highlight_regions rs h)"
  by (simp add: set_highlight_regions_def update_active_flags_current)

lemma active_flags_current_cong:
  "cursor h' = cursor h \<Longrightarrow> selection_start h' = selection_start h
     \<Longrightarrow> highlighted_regions h' = highlighted_regions h
     \<Longrightarrow> active_flags_current h' = active_flags_current h"
  by (simp add: active_flags_current_def region_overlaps_range_def active_range_def
        split: option.splits)

lemma set_cursor_flags_current:
  assumes "active_flags_current h"
  shows "active_flags_current (set_cursor a ac nb h)"
proof (cases "a < start_addr h \<or> end_addr h \<le> a \<or> processing_cursor_update h")
  case True
  thus ?thesis using assms by (simp add: set_cursor_rejected)
next
  case False
  hence acc: "start_addr h \<le> a" "a < end_addr h" "\<not> processing_cursor_update h" by auto
  note c = set_cursor_accepted(1) [OF acc, of ac nb]
  note r = set_cursor_regions [OF acc, of ac nb]
  show ?thesis
  proof (cases "cursor h = a")
    case True
    have "active_flags_current (set_cursor a ac nb h) = active_flags_current h"
      by (rule active_flags_current_cong) (simp_all add: c r True)
    thus ?thesis using assms by simp
  next
    case False
    have "active_flags_current (set_cursor a ac nb h)
            = active_flags_current (update_active_highlight_regions (h\<lparr>cursor := a\<rparr>))"
      by (rule active_flags_current_cong) (simp_all add: c r False)
    thus ?thesis by (simp add: update_active_flags_current)
  qed
qed

text \<open>
  Claim C5. After \<^verbatim>\<open>set_cursor\<close>, \<^verbatim>\<open>begin_selection\<close> and \<^verbatim>\<open>clear_selection\<close> every
  region's active flag should equal the overlap test against the cursor or selection
  range. \<^verbatim>\<open>clear_selection\<close> does not recompute the flags. In a region of 256 bytes at
  address 0 with a highlight region \<open>[3, 5)\<close>: a move to 16 and the Up key with Shift
  select \<open>[0, 16]\<close>, and the flags agree with the test. Then the Up key without Shift
  clears the selection and its move to \<open>-16\<close> is rejected: the range is the cursor 0
  alone, the region does not overlap it, and the region is still active.
\<close>

theorem clear_selection_stale_active_flags:
  "set_data_callback 0 256 init_HexGraphicsObject
     = Inr (init_HexGraphicsObject\<lparr>num_bytes := 256, end_addr := 256, cursor_changed_emitted := 1\<rparr>)
   \<and> keyPressEvent_movement (- 16) True
       (set_cursor 16 None None
         (set_highlight_regions [new_HexHighlightRegion DataColor 3 2]
           (init_HexGraphicsObject\<lparr>num_bytes := 256, end_addr := 256,
              cursor_changed_emitted := 1\<rparr>)))
       = stale_selection_state
   \<and> active_flags_current stale_selection_state
   \<and> clear_selection stale_selection_state = stale_selection_state\<lparr>selection_start := None\<rparr>
   \<and> keyPressEvent_movement (- 16) False stale_selection_state
       = stale_selection_state\<lparr>selection_start := None\<rparr>
   \<and> active_range (stale_selection_state\<lparr>selection_start := None\<rparr>) = (0, 0)
   \<and> map active (highlighted_regions (stale_selection_state\<lparr>selection_start := None\<rparr>)) = [True]
   \<and> \<not> active_flags_current (clear_selection stale_selection_state)
   \<and> \<not> active_flags_current (keyPressEvent_movement (- 16) False stale_selection_state)"
  by (simp add: init_HexGraphicsObject_def set_data_callback_def set_data_common_def
        set_cursor_def keyPressEvent_movement_def begin_selection_def clear_selection_def
        set_highlight_regions_def update_active_highlight_regions_def active_range_def
        new_HexHighlightRegion_def stale_selection_state_def active_flags_current_def
        region_overlaps_range_def Let_def)

section \<open>The patch set: order and overlap\<close>

text \<open>In a well-formed patch set a patch splits the list into the patches below it and the
  patches above it; removing, adding and mutating act at that position.\<close>

lemma wf_store_append_Cons:
  "wf_store (xs @ p # ys) \<longleftrightarrow>
     wf_store xs \<and> wf_store ys \<and> (\<forall>x\<in>set xs. precedes x p) \<and> (\<forall>y\<in>set ys. precedes p y)
     \<and> (\<forall>x\<in>set xs. \<forall>y\<in>set ys. precedes x y)"
  by (auto simp add: wf_store_def sorted_wrt_append)

lemma wf_store_append:
  "wf_store (xs @ ys) \<longleftrightarrow>
     wf_store xs \<and> wf_store ys \<and> (\<forall>x\<in>set xs. \<forall>y\<in>set ys. precedes x y)"
  by (auto simp add: wf_store_def sorted_wrt_append)

lemma precedes_addr: "precedes p q \<Longrightarrow> patch_addr p < patch_addr q"
  by (simp add: precedes_def)

lemma precedes_trans: "precedes p q \<Longrightarrow> precedes q r \<Longrightarrow> precedes p r"
  by (simp add: precedes_def)

lemma remove_patch_mid:
  assumes "wf_store (xs @ p # ys)"
  shows "remove_patch (patch_addr p) (xs @ p # ys) = xs @ ys"
proof -
  from assms have "\<forall>x\<in>set xs. patch_addr x \<noteq> patch_addr p"
    and "\<forall>y\<in>set ys. patch_addr y \<noteq> patch_addr p"
    by (auto simp add: wf_store_append_Cons precedes_def)
  thus ?thesis by (simp add: remove_patch_def)
qed

lemma add_patch_obj_mid:
  assumes "\<forall>x\<in>set xs. patch_addr x < patch_addr p'"
    and "\<forall>y\<in>set ys. patch_addr p' < patch_addr y"
  shows "add_patch_obj p' (xs @ ys) = xs @ p' # ys"
  using assms
proof (induction xs)
  case Nil
  thus ?case by (cases ys) simp_all
next
  case (Cons x xs)
  thus ?case by simp
qed

lemma store_mutate_mid:
  assumes "wf_store (xs @ p # ys)"
  shows "store_mutate p p' (xs @ p # ys) = xs @ p' # ys"
proof -
  from assms have "p \<notin> set xs" and "p \<notin> set ys"
    by (auto simp add: wf_store_append_Cons precedes_def)
  hence "map (\<lambda>q. if q = p then p' else q) xs = xs"
    and "map (\<lambda>q. if q = p then p' else q) ys = ys"
    by (auto intro!: map_idI)
  thus ?thesis by (simp add: store_mutate_def)
qed

lemma get_all_patches_containing:
  assumes wf: "wf_store (xs @ p # ys)"
    and lo: "patch_addr p \<le> a" and hi: "a + n - 1 \<le> patch_addr p + patch_len p - 1"
    and ne: "0 < n"
  shows "get_all_patches (xs @ p # ys) a n = [p]"
proof -
  have "\<forall>x\<in>set xs. \<not> (patch_addr x \<le> a + n - 1 \<and> a \<le> patch_addr x + patch_len x - 1)"
    using wf lo by (auto simp add: wf_store_append_Cons precedes_def)
  moreover have "\<forall>y\<in>set ys. \<not> (patch_addr y \<le> a + n - 1 \<and> a \<le> patch_addr y + patch_len y - 1)"
    using wf hi by (auto simp add: wf_store_append_Cons precedes_def)
  ultimately show ?thesis using lo hi ne by (simp add: get_all_patches_def)
qed

section \<open>Writing inside a patch\<close>

lemma py_slice_assign_inside:
  assumes "0 \<le> i" and "j = i + int (length ys)" and "j \<le> int (length xs)"
  shows "py_slice_assign xs i j ys = take (nat i) xs @ ys @ drop (nat i + length ys) xs"
  using assms
  by (simp add: py_slice_assign_def py_slice_index_def Let_def nat_add_distrib min_def max_def)

lemma length_overwrite_at: "off + length ys \<le> length xs \<Longrightarrow> length (overwrite_at xs off ys) = length xs"
  by (simp add: overwrite_at_def)

lemma nth_overwrite_at:
  assumes "off + length ys \<le> length xs" and "i < length xs"
  shows "overwrite_at xs off ys ! i =
     (if off \<le> i \<and> i < off + length ys then ys ! (i - off) else xs ! i)"
  using assms by (auto simp add: overwrite_at_def nth_append)

text \<open>
  Claim C2. Let the patch set be well-formed (keys ascending, no two patches overlapping),
  let \<open>p\<close> be one of its patches and let the target range \<open>[a, a + len(new_bytes) - 1]\<close>
  of a non-empty write lie within the range of \<open>p\<close>. Then \<^verbatim>\<open>auto_patch\<close> returns the
  patch set in which the entry \<open>p\<close> is replaced by \<open>p\<close> with a new byte buffer and every
  other entry is as before, so that no patch is created or removed and the address of
  \<open>p\<close> is unchanged; the new buffer has the length of the old one, holds the new bytes
  at the offsets \<open>a - p.addr\<close> to \<open>a - p.addr + len(new_bytes) - 1\<close> and the old bytes
  at every other offset.
\<close>

theorem auto_patch_containment:
  assumes "wf_store pm" and "p \<in> set pm" and "nb \<noteq> []"
    and "patch_addr p \<le> a"
    and "a + int (length nb) - 1 \<le> patch_addr p + patch_len p - 1"
  shows "auto_patch pm a nb =
           Inr (map (\<lambda>q. if q = p
                          then p\<lparr>new_bytes := overwrite_at (new_bytes p) (nat (a - patch_addr p)) nb\<rparr>
                          else q) pm)
       \<and> length (overwrite_at (new_bytes p) (nat (a - patch_addr p)) nb) = length (new_bytes p)
       \<and> (\<forall>i<length (new_bytes p).
             overwrite_at (new_bytes p) (nat (a - patch_addr p)) nb ! i =
               (if nat (a - patch_addr p) \<le> i \<and> i < nat (a - patch_addr p) + length nb
                then nb ! (i - nat (a - patch_addr p)) else new_bytes p ! i))"
proof -
  let ?off = "nat (a - patch_addr p)"
  from assms(2) obtain xs ys where pm: "pm = xs @ p # ys" by (auto dest: split_list)
  have n: "0 < int (length nb)" using assms(3) by simp
  have sn: "get_all_patches pm a (int (length nb)) = [p]"
    unfolding pm using assms(1,4,5) n by (intro get_all_patches_containing) (simp_all add: pm)
  have fits: "?off + length nb \<le> length (new_bytes p)"
    using assms(4,5) by (simp add: patch_len_def)
  have sl: "py_slice_assign (new_bytes p) (a - patch_addr p)
              (a + int (length nb) - 1 - patch_addr p + 1) nb
            = overwrite_at (new_bytes p) ?off nb"
    unfolding overwrite_at_def
    by (rule py_slice_assign_inside) (use assms(4,5) in \<open>simp_all add: patch_len_def\<close>)
  have loop: "auto_patch_loop a nb [p] pm =
      Inr (Returned (store_mutate p
             (p\<lparr>new_bytes := py_slice_assign (new_bytes p) (a - patch_addr p)
                   (a + int (length nb) - 1 - patch_addr p + 1) nb\<rparr>) pm))"
    using assms(4,5) by (simp add: Let_def)
  have "auto_patch pm a nb =
      Inr (store_mutate p (p\<lparr>new_bytes := overwrite_at (new_bytes p) ?off nb\<rparr>) pm)"
    unfolding auto_patch_def sn loop sl by simp
  hence 1: "auto_patch pm a nb =
           Inr (map (\<lambda>q. if q = p
                          then p\<lparr>new_bytes := overwrite_at (new_bytes p) ?off nb\<rparr>
                          else q) pm)"
    by (simp add: store_mutate_def)
  from 1 length_overwrite_at [OF fits] nth_overwrite_at [OF fits] show ?thesis by simp
qed


text \<open>The theorem at a patch set of two patches: two bytes are written into the eight
  bytes of the patch at \<open>0x1010\<close>, at the offsets 2 and 3.\<close>

theorem auto_patch_containment_witness:
  "wf_store [\<lparr>patch_addr = 0x1000, new_bytes = [9, 9], comment = None\<rparr>,
             \<lparr>patch_addr = 0x1010, new_bytes = [1, 2, 3, 4, 5, 6, 7, 8], comment = None\<rparr>]
   \<and> auto_patch [\<lparr>patch_addr = 0x1000, new_bytes = [9, 9], comment = None\<rparr>,
                  \<lparr>patch_addr = 0x1010, new_bytes = [1, 2, 3, 4, 5, 6, 7, 8], comment = None\<rparr>]
        0x1012 [0xAA, 0xBB]
       = Inr [\<lparr>patch_addr = 0x1000, new_bytes = [9, 9], comment = None\<rparr>,
              \<lparr>patch_addr = 0x1010, new_bytes = [1, 2, 0xAA, 0xBB, 5, 6, 7, 8], comment = None\<rparr>]"
proof -
  let ?q = "\<lparr>patch_addr = 0x1000, new_bytes = [9, 9 :: byte], comment = None\<rparr>"
  let ?p = "\<lparr>patch_addr = 0x1010, new_bytes = [1, 2, 3, 4, 5, 6, 7, 8 :: byte], comment = None\<rparr>"
  have wf: "wf_store [?q, ?p]" by (simp add: wf_store_def precedes_def patch_len_def)
  have mem: "?p \<in> set [?q, ?p]" by simp
  have ne: "[0xAA, 0xBB :: byte] \<noteq> []" by simp
  have lo: "patch_addr ?p \<le> 0x1012" by simp
  have hi: "0x1012 + int (length [0xAA, 0xBB :: byte]) - 1 \<le> patch_addr ?p + patch_len ?p - 1"
    by (simp add: patch_len_def)
  from auto_patch_containment [OF wf mem ne lo hi]
  have "auto_patch [?q, ?p] 0x1012 [0xAA, 0xBB]
          = Inr (map (\<lambda>q. if q = ?p
                   then ?p\<lparr>new_bytes := overwrite_at (new_bytes ?p) (nat (0x1012 - patch_addr ?p))
                                             [0xAA, 0xBB]\<rparr>
                   else q) [?q, ?p])"
    by (rule conjunct1)
  hence "auto_patch [?q, ?p] 0x1012 [0xAA, 0xBB]
          = Inr [?q, \<lparr>patch_addr = 0x1010, new_bytes = [1, 2, 0xAA, 0xBB, 5, 6, 7, 8],
                      comment = None\<rparr>]"
    by (simp add: overwrite_at_def)
  with wf show ?thesis by (intro conjI)
qed

section \<open>Splitting a patch and merging the halves\<close>

lemma remove_patch_at:
  assumes "\<forall>x\<in>set xs. patch_addr x \<noteq> a" and "\<forall>y\<in>set ys. patch_addr y \<noteq> a"
    and "patch_addr q = a"
  shows "remove_patch a (xs @ q # ys) = xs @ ys"
  using assms by (simp add: remove_patch_def)

lemma py_slice_prefix:
  "0 \<le> j \<Longrightarrow> py_slice xs 0 j = take (nat j) xs"
  by (simp add: py_slice_def py_slice_index_def Let_def min_def)

lemma py_slice_from_suffix:
  "0 \<le> i \<Longrightarrow> py_slice_from xs i = drop (nat i) xs"
  by (simp add: py_slice_from_def py_slice_index_def min_def)

lemma split_parts:
  assumes "wf_store (xs @ p # ys)" and "patch_addr p < c" and "c < patch_addr p + patch_len p"
  shows "split c p (xs @ p # ys) = xs @ split_left c p # split_right c p # ys"
proof -
  have cs: "can_split c p" using assms(2,3) by (simp add: can_split_def)
  have l: "p\<lparr>new_bytes := py_slice (new_bytes p) 0 (c - patch_addr p)\<rparr> = split_left c p"
    using assms(2) by (simp add: split_left_def py_slice_prefix)
  have r: "\<lparr>patch_addr = c, new_bytes = py_slice_from (new_bytes p) (c - patch_addr p),
            comment = comment p\<rparr> = split_right c p"
    using assms(2) by (simp add: split_right_def py_slice_from_suffix)
  have m: "store_mutate p (split_left c p) (xs @ p # ys) = xs @ split_left c p # ys"
    by (rule store_mutate_mid [OF assms(1)])
  have before: "\<forall>x\<in>set (xs @ [split_left c p]). patch_addr x < patch_addr (split_right c p)"
    using assms(1,2) by (auto simp add: wf_store_append_Cons precedes_def split_left_def split_right_def)
  have after: "\<forall>y\<in>set ys. patch_addr (split_right c p) < patch_addr y"
    using assms(1,3) by (auto simp add: wf_store_append_Cons precedes_def split_right_def)
  have "add_patch_obj (split_right c p) ((xs @ [split_left c p]) @ ys)
          = (xs @ [split_left c p]) @ split_right c p # ys"
    by (rule add_patch_obj_mid [OF before after])
  hence a: "add_patch_obj (split_right c p) (xs @ split_left c p # ys)
          = xs @ split_left c p # split_right c p # ys" by simp
  show ?thesis
    unfolding split_def by (simp only: cs if_True Let_def l r m a)
qed

lemma split_parts_wf:
  assumes "wf_store (xs @ p # ys)" and "patch_addr p < c" and "c < patch_addr p + patch_len p"
  shows "wf_store (xs @ split_left c p # split_right c p # ys)"
proof -
  from assms(1) have parts: "wf_store xs" "wf_store ys"
    "\<forall>x\<in>set xs. precedes x p" "\<forall>y\<in>set ys. precedes p y"
    "\<forall>x\<in>set xs. \<forall>y\<in>set ys. precedes x y"
    by (simp_all add: wf_store_append_Cons)
  have l: "\<forall>x\<in>set xs. precedes x (split_left c p)"
    using parts(3) by (simp add: precedes_def split_left_def)
  have lr: "precedes (split_left c p) (split_right c p)"
    using assms(2,3) by (simp add: precedes_def split_left_def split_right_def patch_len_def)
  have xr: "\<forall>x\<in>set xs. precedes x (split_right c p)"
    using l lr by (blast intro: precedes_trans)
  have r: "\<forall>y\<in>set ys. precedes (split_right c p) y"
    using parts(4) assms(2,3)
    by (auto simp add: precedes_def split_right_def patch_len_def)
  have ly: "\<forall>y\<in>set ys. precedes (split_left c p) y"
    using lr r by (blast intro: precedes_trans)
  have "wf_store (split_right c p # ys)"
    using parts(2) r by (simp add: wf_store_def)
  thus ?thesis
    using parts(1,5) l lr xr ly by (simp add: wf_store_append_Cons)
qed

lemma merge_parts:
  assumes "wf_store (xs @ p # ys)" and "patch_addr p < c" and "c < patch_addr p + patch_len p"
  shows "merge_with (split_left c p) (split_right c p)
           (xs @ split_left c p # split_right c p # ys) = xs @ p # ys"
proof -
  have cm: "can_merge_with (split_left c p) (split_right c p)"
    using assms(2,3) by (simp add: can_merge_with_def split_left_def split_right_def patch_len_def)
  have whole: "(split_left c p)\<lparr>new_bytes := new_bytes (split_left c p) @ new_bytes (split_right c p)\<rparr> = p"
    by (simp add: split_left_def split_right_def)
  have m: "store_mutate (split_left c p) p (xs @ split_left c p # (split_right c p # ys))
             = xs @ p # (split_right c p # ys)"
    by (rule store_mutate_mid) (use split_parts_wf [OF assms] in simp)
  have "\<forall>x\<in>set (xs @ [p]). patch_addr x \<noteq> c"
    using assms(1,2) by (auto simp add: wf_store_append_Cons precedes_def)
  moreover have "\<forall>y\<in>set ys. patch_addr y \<noteq> c"
    using assms(1,3) by (auto simp add: wf_store_append_Cons precedes_def)
  ultimately have "remove_patch c ((xs @ [p]) @ split_right c p # ys) = (xs @ [p]) @ ys"
    by (rule remove_patch_at) (simp add: split_right_def)
  hence r: "remove_patch (patch_addr (split_right c p)) (xs @ p # split_right c p # ys) = xs @ p # ys"
    by (simp add: split_right_def)
  show ?thesis
    unfolding merge_with_def by (simp only: cm if_True Let_def whole m r)
qed

text \<open>
  Claim C4. Let the patch set be well-formed, \<open>p\<close> one of its patches and \<open>c\<close> an address
  strictly inside \<open>p\<close>. Splitting \<open>p\<close> at \<open>c\<close> puts exactly two patches in the place of
  \<open>p\<close>: one at \<open>p.addr\<close> with the first \<open>c - p.addr\<close> bytes and one at \<open>c\<close> with the
  remaining bytes. Their ranges partition the range of \<open>p\<close>, their buffers concatenate to
  the bytes of \<open>p\<close>, and the patch set is well-formed again. The two patches are exactly
  adjacent, and merging them gives back the patch set from before the split, with the
  single patch \<open>p\<close>. Merging two patches that are not exactly adjacent changes
  nothing.
\<close>

theorem split_then_merge:
  assumes "wf_store pm" and "p \<in> set pm"
    and "patch_addr p < c" and "c < patch_addr p + patch_len p"
  shows "(\<exists>xs ys. pm = xs @ p # ys \<and> split c p pm = xs @ split_left c p # split_right c p # ys)
       \<and> patch_addr (split_left c p) = patch_addr p
       \<and> patch_len (split_left c p) = c - patch_addr p
       \<and> patch_addr (split_right c p) = c
       \<and> patch_len (split_right c p) = patch_addr p + patch_len p - c
       \<and> new_bytes (split_left c p) @ new_bytes (split_right c p) = new_bytes p
       \<and> wf_store (split c p pm)
       \<and> can_merge_with (split_left c p) (split_right c p)
       \<and> merge_with (split_left c p) (split_right c p) (split c p pm) = pm
       \<and> (\<not> can_merge_with q r \<longrightarrow> merge_with q r pm' = pm')"
proof -
  from assms(2) obtain xs ys where pm: "pm = xs @ p # ys" by (auto dest: split_list)
  have wf: "wf_store (xs @ p # ys)" using assms(1) by (simp add: pm)
  have sp: "split c p pm = xs @ split_left c p # split_right c p # ys"
    unfolding pm by (rule split_parts [OF wf assms(3,4)])
  have 1: "\<exists>xs ys. pm = xs @ p # ys \<and> split c p pm = xs @ split_left c p # split_right c p # ys"
    using pm sp by blast
  have 2: "patch_addr (split_left c p) = patch_addr p"
    and 3: "patch_len (split_left c p) = c - patch_addr p"
    and 4: "patch_addr (split_right c p) = c"
    and 5: "patch_len (split_right c p) = patch_addr p + patch_len p - c"
    and 6: "new_bytes (split_left c p) @ new_bytes (split_right c p) = new_bytes p"
    using assms(3,4) by (simp_all add: split_left_def split_right_def patch_len_def)
  have 7: "wf_store (split c p pm)"
    unfolding sp by (rule split_parts_wf [OF wf assms(3,4)])
  have 8: "can_merge_with (split_left c p) (split_right c p)"
    unfolding can_merge_with_def using 2 3 4 by simp
  have 9: "merge_with (split_left c p) (split_right c p) (split c p pm) = pm"
  proof -
    have "merge_with (split_left c p) (split_right c p) (split c p pm)
            = merge_with (split_left c p) (split_right c p)
                (xs @ split_left c p # split_right c p # ys)"
      by (simp only: sp)
    also have "\<dots> = xs @ p # ys" by (rule merge_parts [OF wf assms(3,4)])
    also have "\<dots> = pm" by (simp only: pm)
    finally show ?thesis .
  qed
  have 10: "\<not> can_merge_with q r \<longrightarrow> merge_with q r pm' = pm'"
    by (simp add: merge_with_def)
  from 1 2 3 4 5 6 7 8 9 10 show ?thesis by (intro conjI)
qed

text \<open>The theorem at the patch of eight bytes at \<open>0x1010\<close>, split at \<open>0x1014\<close> into two
  patches of four bytes and merged again.\<close>

theorem split_then_merge_witness:
  "wf_store [\<lparr>patch_addr = 0x1010, new_bytes = [1, 2, 3, 4, 5, 6, 7, 8], comment = None\<rparr>]
   \<and> split 0x1014 \<lparr>patch_addr = 0x1010, new_bytes = [1, 2, 3, 4, 5, 6, 7, 8], comment = None\<rparr>
        [\<lparr>patch_addr = 0x1010, new_bytes = [1, 2, 3, 4, 5, 6, 7, 8], comment = None\<rparr>]
      = [\<lparr>patch_addr = 0x1010, new_bytes = [1, 2, 3, 4], comment = None\<rparr>,
         \<lparr>patch_addr = 0x1014, new_bytes = [5, 6, 7, 8], comment = None\<rparr>]
   \<and> merge_with \<lparr>patch_addr = 0x1010, new_bytes = [1, 2, 3, 4], comment = None\<rparr>
        \<lparr>patch_addr = 0x1014, new_bytes = [5, 6, 7, 8], comment = None\<rparr>
        [\<lparr>patch_addr = 0x1010, new_bytes = [1, 2, 3, 4], comment = None\<rparr>,
         \<lparr>patch_addr = 0x1014, new_bytes = [5, 6, 7, 8], comment = None\<rparr>]
      = [\<lparr>patch_addr = 0x1010, new_bytes = [1, 2, 3, 4, 5, 6, 7, 8], comment = None\<rparr>]"
proof -
  let ?p = "\<lparr>patch_addr = 0x1010, new_bytes = [1, 2, 3, 4, 5, 6, 7, 8 :: byte], comment = None\<rparr>"
  let ?l = "\<lparr>patch_addr = 0x1010, new_bytes = [1, 2, 3, 4 :: byte], comment = None\<rparr>"
  let ?r = "\<lparr>patch_addr = 0x1014, new_bytes = [5, 6, 7, 8 :: byte], comment = None\<rparr>"
  have wf: "wf_store [?p]" by (simp add: wf_store_def)
  have mem: "?p \<in> set [?p]" by simp
  have lo: "patch_addr ?p < 0x1014" by simp
  have hi: "0x1014 < patch_addr ?p + patch_len ?p" by (simp add: patch_len_def)
  have l: "split_left 0x1014 ?p = ?l" by (simp add: split_left_def)
  have r: "split_right 0x1014 ?p = ?r" by (simp add: split_right_def)
  note t = split_then_merge [OF wf mem lo hi, where q = ?l and r = ?r and pm' = "[]"]
  from t obtain xs ys where "[?p] = xs @ ?p # ys"
    and "split 0x1014 ?p [?p] = xs @ split_left 0x1014 ?p # split_right 0x1014 ?p # ys"
    by blast
  hence s: "split 0x1014 ?p [?p] = [?l, ?r]"
    unfolding l r by (simp add: Cons_eq_append_conv append_eq_Cons_conv)
  from t have "merge_with (split_left 0x1014 ?p) (split_right 0x1014 ?p) (split 0x1014 ?p [?p])
      = [?p]" by (elim conjE)
  hence m: "merge_with ?l ?r [?l, ?r] = [?p]" unfolding l r s .
  from wf s m show ?thesis by (intro conjI)
qed

section \<open>Resolving the patches that overlap a write\<close>

text \<open>Replacing a patch by a patch within its range, at the same key or not empty, keeps
  the patch set well-formed.\<close>

lemma shrink_patch:
  assumes wf: "wf_store (xs @ p # ys)"
    and lo: "patch_addr p \<le> patch_addr p'"
    and hi: "patch_addr p' + patch_len p' \<le> patch_addr p + patch_len p"
    and ne: "0 < patch_len p' \<or> patch_addr p' = patch_addr p"
  shows "add_patch_obj p' (remove_patch (patch_addr p) (xs @ p # ys)) = xs @ p' # ys"
    and "wf_store (xs @ p' # ys)"
proof -
  from wf have parts: "wf_store xs" "wf_store ys"
    "\<forall>x\<in>set xs. precedes x p" "\<forall>y\<in>set ys. precedes p y"
    "\<forall>x\<in>set xs. \<forall>y\<in>set ys. precedes x y"
    by (simp_all add: wf_store_append_Cons)
  have l: "\<forall>x\<in>set xs. precedes x p'"
    using parts(3) lo by (auto simp add: precedes_def)
  have r: "\<forall>y\<in>set ys. precedes p' y"
    using parts(4) lo hi ne by (auto simp add: precedes_def)
  show "wf_store (xs @ p' # ys)"
    using parts(1,2,5) l r by (simp add: wf_store_append_Cons)
  have "add_patch_obj p' (xs @ ys) = xs @ p' # ys"
    by (rule add_patch_obj_mid) (use l r in \<open>auto simp add: precedes_def\<close>)
  thus "add_patch_obj p' (remove_patch (patch_addr p) (xs @ p # ys)) = xs @ p' # ys"
    by (simp only: remove_patch_mid [OF wf])
qed

lemma wf_store_remove_mid: "wf_store (xs @ p # ys) \<Longrightarrow> wf_store (xs @ ys)"
  by (auto simp add: wf_store_def sorted_wrt_append)

text \<open>A patch that does not contain the target range is removed, shrunk up or shrunk down;
  the assertion at the end of the chain is never reached.\<close>

lemma auto_patch_loop_step:
  assumes "\<not> contains_target a (int (length nb)) p"
  shows "auto_patch_loop a nb (p # ps) pm =
     (if a \<le> patch_addr p \<and> patch_addr p + patch_len p - 1 \<le> a + int (length nb) - 1 then
        auto_patch_loop a nb ps (remove_patch (patch_addr p) pm)
      else if a \<le> patch_addr p then
        auto_patch_loop a nb ps
          (add_patch_obj
             (p\<lparr>new_bytes := py_slice_from (new_bytes p) (a + int (length nb) - patch_addr p),
                patch_addr := a + int (length nb)\<rparr>)
             (remove_patch (patch_addr p) pm))
      else
        auto_patch_loop a nb ps
          (add_patch_obj (p\<lparr>new_bytes := py_slice (new_bytes p) 0 (a - patch_addr p)\<rparr>)
             (remove_patch (patch_addr p) pm)))"
  using assms by (auto simp add: contains_target_def Let_def)


lemma auto_patch_loop_never_asserts: "auto_patch_loop a nb ps pm \<noteq> Inl e"
  by (induction ps arbitrary: pm) (auto simp add: Let_def)

lemma auto_patch_never_asserts: "auto_patch pm a nb \<noteq> Inl e"
  using auto_patch_loop_never_asserts [of a nb "get_all_patches pm a (int (length nb))" pm]
  by (auto simp add: auto_patch_def split: sum.splits loop_result.splits)

text \<open>When no patch contains the target range, the loop runs to its end.\<close>

lemma auto_patch_loop_completes:
  assumes "\<forall>p\<in>set ps. \<not> contains_target a (int (length nb)) p"
  shows "\<exists>pm'. auto_patch_loop a nb ps pm = Inr (Completed pm')"
  using assms
proof (induction ps arbitrary: pm)
  case Nil
  show ?case by simp
next
  case (Cons p ps)
  hence nc: "\<not> contains_target a (int (length nb)) p"
    and rest: "\<forall>p\<in>set ps. \<not> contains_target a (int (length nb)) p" by simp_all
  show ?case
    unfolding auto_patch_loop_step [OF nc] using Cons.IH [OF rest] by simp
qed

text \<open>The loop keeps the patch set well-formed.\<close>

lemma auto_patch_loop_wf:
  assumes "auto_patch_loop a nb ps pm = Inr (Completed pm')"
    and "wf_store pm" and "wf_store (ps)" and "set ps \<subseteq> set pm"
    and "\<forall>p\<in>set ps. overlaps_target a (int (length nb)) p"
  shows "wf_store pm'"
  using assms
proof (induction ps arbitrary: pm)
  case Nil
  thus ?case by simp
next
  case (Cons p ps)
  let ?n = "int (length nb)"
  have nc: "\<not> contains_target a ?n p"
    using Cons.prems(1) by (auto simp add: contains_target_def Let_def)
  have ov: "overlaps_target a ?n p" using Cons.prems(5) by simp
  from Cons.prems(4) obtain xs ys where pm: "pm = xs @ p # ys"
    by (auto dest: split_list)
  have wf: "wf_store (xs @ p # ys)" using Cons.prems(2) by (simp add: pm)
  have wfps: "wf_store ps" and pps: "\<forall>q\<in>set ps. precedes p q"
    using Cons.prems(3) by (simp_all add: wf_store_def)
  have ov': "\<forall>q\<in>set ps. overlaps_target a ?n q" using Cons.prems(5) by simp
  have others: "set ps \<subseteq> set xs \<union> set ys"
  proof
    fix q assume q: "q \<in> set ps"
    with pps have "patch_addr q \<noteq> patch_addr p" by (auto simp add: precedes_def)
    hence "q \<noteq> p" by auto
    with q Cons.prems(4) show "q \<in> set xs \<union> set ys" by (auto simp add: pm)
  qed
  note step = Cons.prems(1) [unfolded auto_patch_loop_step [OF nc]]
  consider (over) "a \<le> patch_addr p" "patch_addr p + patch_len p - 1 \<le> a + ?n - 1"
    | (up) "a \<le> patch_addr p" "\<not> patch_addr p + patch_len p - 1 \<le> a + ?n - 1"
    | (down) "\<not> a \<le> patch_addr p" by blast
  thus ?case
  proof cases
    case over
    with step have run: "auto_patch_loop a nb ps (remove_patch (patch_addr p) pm) = Inr (Completed pm')"
      by simp
    have st: "remove_patch (patch_addr p) pm = xs @ ys"
      unfolding pm by (rule remove_patch_mid [OF wf])
    show ?thesis
      by (rule Cons.IH [OF run])
         (use wf others wfps ov' in \<open>simp_all add: st wf_store_remove_mid\<close>)
  next
    case up
    let ?p' = "p\<lparr>new_bytes := py_slice_from (new_bytes p) (a + ?n - patch_addr p),
                  patch_addr := a + ?n\<rparr>"
    from up step have run: "auto_patch_loop a nb ps
         (add_patch_obj ?p' (remove_patch (patch_addr p) pm)) = Inr (Completed pm')"
      by simp
    have k: "0 \<le> a + ?n - patch_addr p" "a + ?n - patch_addr p < patch_len p"
      using ov up by (simp_all add: overlaps_target_def)
    have len: "patch_len ?p' = patch_len p - (a + ?n - patch_addr p)"
      using k by (simp add: patch_len_def py_slice_from_suffix)
    have sh: "add_patch_obj ?p' (remove_patch (patch_addr p) (xs @ p # ys)) = xs @ ?p' # ys"
      and wf': "wf_store (xs @ ?p' # ys)"
      using k len by (intro shrink_patch [OF wf]; simp)+
    show ?thesis
      by (rule Cons.IH [OF run])
         (use wf' others wfps ov' in \<open>auto simp add: pm sh\<close>)
  next
    case down
    let ?p' = "p\<lparr>new_bytes := py_slice (new_bytes p) 0 (a - patch_addr p)\<rparr>"
    from down step have run: "auto_patch_loop a nb ps
         (add_patch_obj ?p' (remove_patch (patch_addr p) pm)) = Inr (Completed pm')"
      by simp
    have len: "patch_len ?p' \<le> patch_len p"
      using down by (simp add: patch_len_def py_slice_prefix)
    have sh: "add_patch_obj ?p' (remove_patch (patch_addr p) (xs @ p # ys)) = xs @ ?p' # ys"
      and wf': "wf_store (xs @ ?p' # ys)"
      using len by (intro shrink_patch [OF wf]; simp)+
    show ?thesis
      by (rule Cons.IH [OF run])
         (use wf' others wfps ov' in \<open>auto simp add: pm sh\<close>)
  qed
qed


text \<open>When the loop has run to its end, no patch overlaps the target range.\<close>

lemma auto_patch_loop_clears:
  assumes "auto_patch_loop a nb ps pm = Inr (Completed pm')"
    and "wf_store pm" and "wf_store ps" and "set ps \<subseteq> set pm"
    and "\<forall>p\<in>set ps. overlaps_target a (int (length nb)) p"
    and "\<forall>q\<in>set pm. overlaps_target a (int (length nb)) q \<longrightarrow> q \<in> set ps"
  shows "\<forall>q\<in>set pm'. \<not> overlaps_target a (int (length nb)) q"
  using assms
proof (induction ps arbitrary: pm)
  case Nil
  thus ?case by simp
next
  case (Cons p ps)
  let ?n = "int (length nb)"
  have nc: "\<not> contains_target a ?n p"
    using Cons.prems(1) by (auto simp add: contains_target_def Let_def)
  have ov: "overlaps_target a ?n p" using Cons.prems(5) by simp
  from Cons.prems(4) obtain xs ys where pm: "pm = xs @ p # ys"
    by (auto dest: split_list)
  have wf: "wf_store (xs @ p # ys)" using Cons.prems(2) by (simp add: pm)
  have wfps: "wf_store ps" and pps: "\<forall>q\<in>set ps. precedes p q"
    using Cons.prems(3) by (simp_all add: wf_store_def)
  have ov': "\<forall>q\<in>set ps. overlaps_target a ?n q" using Cons.prems(5) by simp
  have others: "set ps \<subseteq> set xs \<union> set ys"
  proof
    fix q assume q: "q \<in> set ps"
    with pps have "patch_addr q \<noteq> patch_addr p" by (auto simp add: precedes_def)
    hence "q \<noteq> p" by auto
    with q Cons.prems(4) show "q \<in> set xs \<union> set ys" by (auto simp add: pm)
  qed
  have pnot: "p \<notin> set xs \<union> set ys"
    using wf by (auto simp add: wf_store_append_Cons precedes_def)
  have pending: "\<forall>q\<in>set xs \<union> set ys. overlaps_target a ?n q \<longrightarrow> q \<in> set ps"
    using Cons.prems(6) pnot by (auto simp add: pm)
  note step = Cons.prems(1) [unfolded auto_patch_loop_step [OF nc]]
  consider (over) "a \<le> patch_addr p" "patch_addr p + patch_len p - 1 \<le> a + ?n - 1"
    | (up) "a \<le> patch_addr p" "\<not> patch_addr p + patch_len p - 1 \<le> a + ?n - 1"
    | (down) "\<not> a \<le> patch_addr p" by blast
  thus ?case
  proof cases
    case over
    with step have run: "auto_patch_loop a nb ps (remove_patch (patch_addr p) pm) = Inr (Completed pm')"
      by simp
    have st: "remove_patch (patch_addr p) pm = xs @ ys"
      unfolding pm by (rule remove_patch_mid [OF wf])
    show ?thesis
      by (rule Cons.IH [OF run])
         (use wf others wfps ov' pending in \<open>simp_all add: st wf_store_remove_mid\<close>)
  next
    case up
    let ?p' = "p\<lparr>new_bytes := py_slice_from (new_bytes p) (a + ?n - patch_addr p),
                  patch_addr := a + ?n\<rparr>"
    from up step have run: "auto_patch_loop a nb ps
         (add_patch_obj ?p' (remove_patch (patch_addr p) pm)) = Inr (Completed pm')"
      by simp
    have k: "0 \<le> a + ?n - patch_addr p" "a + ?n - patch_addr p < patch_len p"
      using ov up by (simp_all add: overlaps_target_def)
    have len: "patch_len ?p' = patch_len p - (a + ?n - patch_addr p)"
      using k by (simp add: patch_len_def py_slice_from_suffix)
    have sh: "add_patch_obj ?p' (remove_patch (patch_addr p) (xs @ p # ys)) = xs @ ?p' # ys"
      and wf': "wf_store (xs @ ?p' # ys)"
      using k len by (intro shrink_patch [OF wf]; simp)+
    have clear: "\<not> overlaps_target a ?n ?p'" by (simp add: overlaps_target_def)
    show ?thesis
      by (rule Cons.IH [OF run])
         (use wf' others wfps ov' pending clear in \<open>auto simp add: pm sh\<close>)
  next
    case down
    let ?p' = "p\<lparr>new_bytes := py_slice (new_bytes p) 0 (a - patch_addr p)\<rparr>"
    from down step have run: "auto_patch_loop a nb ps
         (add_patch_obj ?p' (remove_patch (patch_addr p) pm)) = Inr (Completed pm')"
      by simp
    have len: "patch_len ?p' \<le> patch_len p" "patch_len ?p' \<le> a - patch_addr p"
      using down by (simp_all add: patch_len_def py_slice_prefix)
    have sh: "add_patch_obj ?p' (remove_patch (patch_addr p) (xs @ p # ys)) = xs @ ?p' # ys"
      and wf': "wf_store (xs @ ?p' # ys)"
      using len by (intro shrink_patch [OF wf]; simp)+
    have clear: "\<not> overlaps_target a ?n ?p'"
      using len(2) by (simp add: overlaps_target_def)
    show ?thesis
      by (rule Cons.IH [OF run])
         (use wf' others wfps ov' pending clear in \<open>auto simp add: pm sh\<close>)
  qed
qed

lemma get_all_patches_facts:
  "wf_store pm \<Longrightarrow> wf_store (get_all_patches pm a n)"
  "set (get_all_patches pm a n) \<subseteq> set pm"
  "\<forall>p\<in>set (get_all_patches pm a n). overlaps_target a n p"
  by (auto simp add: get_all_patches_def wf_store_def overlaps_target_def sorted_wrt_filter)

lemma get_all_patches_complete:
  "\<forall>q\<in>set pm. overlaps_target a n q \<longrightarrow> q \<in> set (get_all_patches pm a n)"
  by (simp add: get_all_patches_def overlaps_target_def)

lemma extend_or_create_extend:
  assumes "wf_store pm" and "0 < a" and "p \<in> set pm"
    and "patch_addr p \<le> a - 1" and "a - 1 \<le> patch_addr p + patch_len p - 1"
  shows "extend_or_create a nb pm =
           map (\<lambda>q. if q = p then p\<lparr>new_bytes := new_bytes p @ nb\<rparr> else q) pm"
proof -
  from assms(3) obtain xs ys where pm: "pm = xs @ p # ys" by (auto dest: split_list)
  have "get_all_patches pm (a - 1) 1 = [p]"
    unfolding pm
    by (rule get_all_patches_containing) (use assms(1,4,5) in \<open>simp_all add: pm\<close>)
  thus ?thesis using assms(2) by (simp add: extend_or_create_def store_mutate_def Let_def)
qed

lemma extend_or_create_create:
  assumes "\<forall>p\<in>set pm. \<not> (patch_addr p \<le> a - 1 \<and> a - 1 \<le> patch_addr p + patch_len p - 1)"
  shows "extend_or_create a nb pm =
           add_patch_obj \<lparr>patch_addr = a, new_bytes = nb, comment = None\<rparr> pm"
proof -
  have "get_all_patches pm (a - 1) 1 = []"
    using assms by (auto simp add: get_all_patches_def filter_empty_conv)
  thus ?thesis by (simp add: extend_or_create_def Let_def)
qed

text \<open>
  Claim C3, as amended. Let the patch set be well-formed, \<open>addr > 0\<close>, and let no patch
  contain the whole target range (a write inside one patch returns from the loop, before
  the check of the preceding byte). Then the loop runs to its end and leaves a well-formed
  patch set in which all patches overlapping the target range have been resolved: none
  overlaps it any more. If a
  patch of that set contains the byte at \<open>addr - 1\<close>, the result of \<^verbatim>\<open>auto_patch\<close> is that
  set with the buffer of this patch extended by \<open>new_bytes\<close>, every other entry as it
  was and no patch created. If no patch of that set contains the byte at \<open>addr - 1\<close>, the
  result is that set with the new patch \<open>{addr, new_bytes}\<close> added.
\<close>

theorem auto_patch_extends_or_creates:
  assumes "wf_store pm" and "0 < a"
    and "\<forall>q\<in>set pm. \<not> contains_target a (int (length nb)) q"
  shows "\<exists>pm'. auto_patch_loop a nb (get_all_patches pm a (int (length nb))) pm = Inr (Completed pm')
      \<and> wf_store pm'
      \<and> (\<forall>q\<in>set pm'. \<not> overlaps_target a (int (length nb)) q)
      \<and> (\<forall>p\<in>set pm'. patch_addr p \<le> a - 1 \<and> a - 1 \<le> patch_addr p + patch_len p - 1 \<longrightarrow>
            auto_patch pm a nb =
              Inr (map (\<lambda>q. if q = p then p\<lparr>new_bytes := new_bytes p @ nb\<rparr> else q) pm'))
      \<and> ((\<forall>p\<in>set pm'. \<not> (patch_addr p \<le> a - 1 \<and> a - 1 \<le> patch_addr p + patch_len p - 1)) \<longrightarrow>
            auto_patch pm a nb =
              Inr (add_patch_obj \<lparr>patch_addr = a, new_bytes = nb, comment = None\<rparr> pm'))"
proof -
  let ?n = "int (length nb)"
  let ?ps = "get_all_patches pm a ?n"
  have "\<forall>p\<in>set ?ps. \<not> contains_target a ?n p"
    using assms(3) get_all_patches_facts(2) [of pm a ?n] by blast
  from auto_patch_loop_completes [OF this]
  obtain pm' where run: "auto_patch_loop a nb ?ps pm = Inr (Completed pm')" by blast
  have wf': "wf_store pm'"
    by (rule auto_patch_loop_wf [OF run assms(1) get_all_patches_facts(1) [OF assms(1)]
          get_all_patches_facts(2,3)])
  have clr: "\<forall>q\<in>set pm'. \<not> overlaps_target a ?n q"
    by (rule auto_patch_loop_clears [OF run assms(1) get_all_patches_facts(1) [OF assms(1)]
          get_all_patches_facts(2,3) get_all_patches_complete])
  have res: "auto_patch pm a nb = Inr (extend_or_create a nb pm')"
    by (simp add: auto_patch_def run)
  have ext: "\<forall>p\<in>set pm'. patch_addr p \<le> a - 1 \<and> a - 1 \<le> patch_addr p + patch_len p - 1 \<longrightarrow>
            auto_patch pm a nb =
              Inr (map (\<lambda>q. if q = p then p\<lparr>new_bytes := new_bytes p @ nb\<rparr> else q) pm')"
    using extend_or_create_extend [OF wf' assms(2)] by (simp add: res)
  have cre: "(\<forall>p\<in>set pm'. \<not> (patch_addr p \<le> a - 1 \<and> a - 1 \<le> patch_addr p + patch_len p - 1)) \<longrightarrow>
            auto_patch pm a nb =
              Inr (add_patch_obj \<lparr>patch_addr = a, new_bytes = nb, comment = None\<rparr> pm')"
    using extend_or_create_create [of pm' a nb] by (simp add: res)
  from run wf' clr ext cre show ?thesis by blast
qed

text \<open>The claim as stated fails for a write inside a patch: two bytes written at \<open>0x1012\<close>
  into the patch of eight bytes at \<open>0x1010\<close>. The patch contains the byte at \<open>0x1011\<close>,
  and its buffer is not extended by the new bytes: they are written over the bytes at the
  offsets 2 and 3, and the buffer keeps its eight bytes.\<close>

theorem auto_patch_extend_counterexample:
  "(0::int) < 0x1012
   \<and> patch_addr \<lparr>patch_addr = 0x1010, new_bytes = [1, 2, 3, 4, 5, 6, 7, 8], comment = None\<rparr>
        \<le> 0x1012 - 1
   \<and> 0x1012 - 1 \<le> patch_addr \<lparr>patch_addr = 0x1010, new_bytes = [1, 2, 3, 4, 5, 6, 7, 8], comment = None\<rparr>
        + patch_len \<lparr>patch_addr = 0x1010, new_bytes = [1, 2, 3, 4, 5, 6, 7, 8], comment = None\<rparr> - 1
   \<and> auto_patch [\<lparr>patch_addr = 0x1010, new_bytes = [1, 2, 3, 4, 5, 6, 7, 8], comment = None\<rparr>]
        0x1012 [0xAA, 0xBB]
      = Inr [\<lparr>patch_addr = 0x1010, new_bytes = [1, 2, 0xAA, 0xBB, 5, 6, 7, 8], comment = None\<rparr>]
   \<and> auto_patch [\<lparr>patch_addr = 0x1010, new_bytes = [1, 2, 3, 4, 5, 6, 7, 8], comment = None\<rparr>]
        0x1012 [0xAA, 0xBB]
      \<noteq> Inr [\<lparr>patch_addr = 0x1010, new_bytes = [1, 2, 3, 4, 5, 6, 7, 8] @ [0xAA, 0xBB],
               comment = None\<rparr>]"
  by (simp add: auto_patch_def get_all_patches_def patch_len_def store_mutate_def
        py_slice_assign_def py_slice_index_def)

text \<open>The amended claim at the patch of four bytes at \<open>0x1010\<close>: four bytes written at
  \<open>0x1014\<close> extend it to eight bytes, and four bytes written at \<open>0x1020\<close> create a second
  patch.\<close>

theorem auto_patch_extends_or_creates_witness:
  "wf_store [\<lparr>patch_addr = 0x1010, new_bytes = [1, 2, 3, 4], comment = None\<rparr>]
   \<and> auto_patch [\<lparr>patch_addr = 0x1010, new_bytes = [1, 2, 3, 4], comment = None\<rparr>]
        0x1014 [5, 6, 7, 8]
      = Inr [\<lparr>patch_addr = 0x1010, new_bytes = [1, 2, 3, 4, 5, 6, 7, 8], comment = None\<rparr>]
   \<and> auto_patch [\<lparr>patch_addr = 0x1010, new_bytes = [1, 2, 3, 4], comment = None\<rparr>]
        0x1020 [5, 6, 7, 8]
      = Inr [\<lparr>patch_addr = 0x1010, new_bytes = [1, 2, 3, 4], comment = None\<rparr>,
             \<lparr>patch_addr = 0x1020, new_bytes = [5, 6, 7, 8], comment = None\<rparr>]"
proof -
  let ?p = "\<lparr>patch_addr = 0x1010, new_bytes = [1, 2, 3, 4 :: byte], comment = None\<rparr>"
  let ?nb = "[5, 6, 7, 8 :: byte]"
  have wf: "wf_store [?p]" by (simp add: wf_store_def)
  have pos: "(0::int) < 0x1014" "(0::int) < 0x1020" by simp_all
  have nc: "\<forall>q\<in>set [?p]. \<not> contains_target 0x1014 (int (length ?nb)) q"
    "\<forall>q\<in>set [?p]. \<not> contains_target 0x1020 (int (length ?nb)) q"
    by (simp_all add: contains_target_def patch_len_def)
  have q1: "get_all_patches [?p] 0x1014 (int (length ?nb)) = []"
    and q2: "get_all_patches [?p] 0x1020 (int (length ?nb)) = []"
    by (simp_all add: get_all_patches_def patch_len_def)
  from auto_patch_extends_or_creates [OF wf pos(1) nc(1)]
  have "\<forall>p\<in>set [?p]. patch_addr p \<le> 0x1014 - 1 \<and> 0x1014 - 1 \<le> patch_addr p + patch_len p - 1 \<longrightarrow>
            auto_patch [?p] 0x1014 ?nb =
              Inr (map (\<lambda>q. if q = p then p\<lparr>new_bytes := new_bytes p @ ?nb\<rparr> else q) [?p])"
    unfolding q1 by auto
  hence 1: "auto_patch [?p] 0x1014 ?nb
      = Inr [\<lparr>patch_addr = 0x1010, new_bytes = [1, 2, 3, 4, 5, 6, 7, 8], comment = None\<rparr>]"
    by (simp add: patch_len_def)
  from auto_patch_extends_or_creates [OF wf pos(2) nc(2)]
  have "(\<forall>p\<in>set [?p]. \<not> (patch_addr p \<le> 0x1020 - 1 \<and> 0x1020 - 1 \<le> patch_addr p + patch_len p - 1)) \<longrightarrow>
            auto_patch [?p] 0x1020 ?nb =
              Inr (add_patch_obj \<lparr>patch_addr = 0x1020, new_bytes = ?nb, comment = None\<rparr> [?p])"
    unfolding q2 by auto
  hence 2: "auto_patch [?p] 0x1020 ?nb
      = Inr [?p, \<lparr>patch_addr = 0x1020, new_bytes = [5, 6, 7, 8], comment = None\<rparr>]"
    by (simp add: patch_len_def)
  from wf 1 2 show ?thesis by (intro conjI)
qed

end
